theory Spec2Isabelle
  imports Main
begin

section \<open>JavaScript string primitives\<close>

text \<open>
  Source strings are modelled as \<^typ>\<open>string\<close>, one \<^typ>\<open>char\<close> per code unit: the
  texts modelled are those whose code units are below 256 (Unicode up to \<open>U+00FF\<close>).
  File contents are texts: what \<open>fs.readFileSync(p, 'utf-8')\<close> returns and
  \<open>fs.writeFileSync\<close> receives.
\<close>

definition newline :: char where
  "newline = CHR 0x0A"

text \<open>\<open>s.split(c)\<close> for a one-character separator: never the empty array.\<close>

fun split_on :: "char \<Rightarrow> string \<Rightarrow> string list" where
  "split_on c [] = [[]]"
| "split_on c (x # xs) =
     (if x = c then [] # split_on c xs
      else (case split_on c xs of [] \<Rightarrow> [[x]] | l # ls \<Rightarrow> (x # l) # ls))"

definition split_lines :: "string \<Rightarrow> string list" where
  "split_lines s = split_on newline s"

text \<open>\<open>xs.join(sep)\<close>.\<close>

fun join_with :: "string \<Rightarrow> string list \<Rightarrow> string" where
  "join_with sep [] = []"
| "join_with sep [x] = x"
| "join_with sep (x # y # ys) = x @ sep @ join_with sep (y # ys)"

definition join_lines :: "string list \<Rightarrow> string" where
  "join_lines ls = join_with [newline] ls"

text \<open>White space of \<open>String.prototype.trim\<close> and of the regular expression class
  \<open>\s\<close>: tab, line feed, vertical tab, form feed, carriage return, space and the no-break
  space \<open>U+00A0\<close>. The other white space of the language (\<open>U+1680\<close>, \<open>U+2000\<close> to
  \<open>U+200A\<close>, \<open>U+2028\<close>, \<open>U+2029\<close>, \<open>U+202F\<close>, \<open>U+205F\<close>, \<open>U+3000\<close>, \<open>U+FEFF\<close>) lies
  outside the texts modelled.\<close>

definition is_space :: "char \<Rightarrow> bool" where
  "is_space c = (c = CHR 0x09 \<or> c = CHR 0x0A \<or> c = CHR 0x0B \<or> c = CHR 0x0C
                 \<or> c = CHR 0x0D \<or> c = CHR '' '' \<or> c = CHR 0xA0)"

definition trim :: "string \<Rightarrow> string" where
  "trim s = rev (dropWhile is_space (rev (dropWhile is_space s)))"

text \<open>\<open>s.startsWith(p)\<close> and \<open>s.includes(p)\<close>.\<close>

fun starts_with :: "string \<Rightarrow> string \<Rightarrow> bool" where
  "starts_with s [] = True"
| "starts_with [] (p # ps) = False"
| "starts_with (c # cs) (p # ps) = (c = p \<and> starts_with cs ps)"

fun str_includes :: "string \<Rightarrow> string \<Rightarrow> bool" where
  "str_includes [] p = (p = [])"
| "str_includes (c # cs) p = (starts_with (c # cs) p \<or> str_includes cs p)"

text \<open>Reading an array out of range gives \<open>undefined\<close>: \<open>None\<close>.\<close>

definition nth_opt :: "'a list \<Rightarrow> nat \<Rightarrow> 'a option" where
  "nth_opt xs i = (if i < length xs then Some (xs ! i) else None)"

text \<open>A template literal renders \<open>undefined\<close> by its name.\<close>

definition template_str :: "string option \<Rightarrow> string" where
  "template_str v = (case v of None \<Rightarrow> ''undefined'' | Some s \<Rightarrow> s)"

text \<open>Decimal rendering of a number in a template literal.\<close>

definition digit_char :: "nat \<Rightarrow> char" where
  "digit_char d = ''0123456789'' ! d"

function show_nat :: "nat \<Rightarrow> string" where
  "show_nat n = (if n < 10 then [digit_char n] else show_nat (n div 10) @ [digit_char (n mod 10)])"
  by pat_completeness auto
termination
  by (relation "measure id") auto

declare show_nat.simps [simp del]

definition show_int :: "int \<Rightarrow> string" where
  "show_int k = (if k < 0 then CHR ''-'' # show_nat (nat (- k)) else show_nat (nat k))"

section \<open>Node's \<open>path\<close> module (POSIX flavour)\<close>

definition slash :: char where
  "slash = CHR ''/''"

definition strip_trailing_slashes :: "string \<Rightarrow> string" where
  "strip_trailing_slashes p = rev (dropWhile (\<lambda>c. c = slash) (rev p))"

text \<open>\<open>path.basename(p)\<close>: trailing slashes are dropped, then what follows the last slash.\<close>

definition basename :: "string \<Rightarrow> string" where
  "basename p = rev (takeWhile (\<lambda>c. c \<noteq> slash) (rev (strip_trailing_slashes p)))"

text \<open>\<open>path.dirname(p)\<close>: the scan runs from the end down to index 1, skipping trailing
  slashes, and stops at the first slash after a non-slash character; the result is the
  text before that slash.\<close>

fun dirname_scan :: "bool \<Rightarrow> string \<Rightarrow> string option" where
  "dirname_scan matchedSlash [] = None"
| "dirname_scan matchedSlash (c # cs) =
     (if c = slash then (if \<not> matchedSlash then Some cs else dirname_scan matchedSlash cs)
      else dirname_scan False cs)"

definition dirname :: "string \<Rightarrow> string" where
  "dirname p =
     (case p of
        [] \<Rightarrow> ''.''
      | c0 # rest \<Rightarrow>
          (case dirname_scan True (rev rest) of
             None \<Rightarrow> (if c0 = slash then ''/'' else ''.'')
           | Some r \<Rightarrow> (if c0 = slash \<and> r = [] then ''//'' else c0 # rev r)))"

text \<open>\<open>path.normalize\<close> works on the segments between slashes: empty and \<open>.\<close> segments
  disappear, \<open>..\<close> removes the segment before it (kept when there is none to remove and
  the path is relative); \<open>acc\<close> holds the result so far, last segment first.\<close>

fun normalize_segments :: "bool \<Rightarrow> string list \<Rightarrow> string list \<Rightarrow> string list" where
  "normalize_segments allowAboveRoot acc [] = rev acc"
| "normalize_segments allowAboveRoot acc (s # ss) =
     (if s = [] \<or> s = ''.'' then normalize_segments allowAboveRoot acc ss
      else if s = ''..'' then
        (case acc of
           [] \<Rightarrow> normalize_segments allowAboveRoot (if allowAboveRoot then [''..''] else []) ss
         | a # as \<Rightarrow>
             (if a = ''..'' then
                normalize_segments allowAboveRoot (if allowAboveRoot then ''..'' # acc else acc) ss
              else normalize_segments allowAboveRoot as ss))
      else normalize_segments allowAboveRoot (s # acc) ss)"

definition normalize_path :: "string \<Rightarrow> string" where
  "normalize_path p =
     (if p = [] then ''.''
      else
        let isAbsolute = (hd p = slash);
            trailingSeparator = (last p = slash);
            q = join_with [slash] (normalize_segments (\<not> isAbsolute) [] (split_on slash p))
        in if q = [] then (if isAbsolute then ''/'' else if trailingSeparator then ''./'' else ''.'')
           else (if isAbsolute then [slash] else []) @ q @ (if trailingSeparator then [slash] else []))"

text \<open>\<open>path.join(...)\<close>: the non-empty arguments joined by a slash, then normalised.\<close>

definition path_join :: "string list \<Rightarrow> string" where
  "path_join args =
     (let parts = filter (\<lambda>a. a \<noteq> []) args
      in if parts = [] then ''.'' else normalize_path (join_with [slash] parts))"

text \<open>\<open>path.extname(p)\<close>: from the last dot of the base name; empty when there is no dot,
  when the only dot is the first character of the base name, or for \<open>..\<close>.\<close>

definition extname :: "string \<Rightarrow> string" where
  "extname p =
     (let b = basename p;
          ext = rev (takeWhile (\<lambda>c. c \<noteq> CHR ''.'') (rev b))
      in if CHR ''.'' \<notin> set b then []
         else if length ext + 1 = length b then []
         else if b = ''..'' then []
         else CHR ''.'' # ext)"

section \<open>Unified diff of two texts (\<open>generateUnifiedDiff\<close>)\<close>

text \<open>One round of the look-ahead: either the next \<open>lookAhead\<close> original lines were
  removed, or the next \<open>lookAhead\<close> modified lines were added.\<close>

datatype lookahead_result = LinesRemoved nat | LinesAdded nat

text \<open>The loop \<open>for (lookAhead = 1; lookAhead <= 3; lookAhead++)\<close>, over the list of
  values still to try. Both sides of each comparison may be \<open>undefined\<close>.\<close>

fun findLookAhead ::
  "string list \<Rightarrow> string list \<Rightarrow> nat \<Rightarrow> nat \<Rightarrow> nat list \<Rightarrow> lookahead_result option" where
  "findLookAhead originalLines modifiedLines i j [] = None"
| "findLookAhead originalLines modifiedLines i j (lookAhead # rest) =
     (if nth_opt originalLines (i + lookAhead) = nth_opt modifiedLines j
        then Some (LinesRemoved lookAhead)
      else if nth_opt originalLines i = nth_opt modifiedLines (j + lookAhead)
        then Some (LinesAdded lookAhead)
      else findLookAhead originalLines modifiedLines i j rest)"

definition minus_line :: "string list \<Rightarrow> nat \<Rightarrow> string" where
  "minus_line ls k = CHR ''-'' # template_str (nth_opt ls k)"

definition plus_line :: "string list \<Rightarrow> nat \<Rightarrow> string" where
  "plus_line ls k = CHR ''+'' # template_str (nth_opt ls k)"

text \<open>The header pushed when a hunk ends on a pair of equal lines.\<close>

definition hunk_header :: "int \<Rightarrow> string list \<Rightarrow> string" where
  "hunk_header hunkStart hunk =
     ''@@ -'' @ show_int (hunkStart + 1) @ '','' @
       show_nat (length (filter (\<lambda>l. starts_with l ''-'' \<or> starts_with l '' '') hunk)) @
     '' +'' @ show_int (hunkStart + 1) @ '','' @
       show_nat (length (filter (\<lambda>l. starts_with l ''+'' \<or> starts_with l '' '') hunk)) @
     '' @@''"

text \<open>The header of the hunk still open when the loop ends.\<close>

definition last_hunk_header :: "int \<Rightarrow> string" where
  "last_hunk_header hunkStart =
     ''@@ -'' @ show_int (hunkStart + 1) @ '' +'' @ show_int (hunkStart + 1) @ '' @@''"

text \<open>The \<open>while\<close> loop; its state is the two cursors, \<open>hunkStart\<close> (\<open>-1\<close> when no hunk is
  open), the open hunk and the lines pushed so far. It returns the state at exit.\<close>

function diff_loop ::
  "string list \<Rightarrow> string list \<Rightarrow> nat \<Rightarrow> nat \<Rightarrow> int \<Rightarrow> string list \<Rightarrow> string list
     \<Rightarrow> int \<times> string list \<times> string list" where
  "diff_loop originalLines modifiedLines i j hunkStart hunk diff =
     (if i < length originalLines \<or> j < length modifiedLines then
        (if nth_opt originalLines i = nth_opt modifiedLines j then
           (if hunk \<noteq> [] then
              diff_loop originalLines modifiedLines (i + 1) (j + 1) (- 1) []
                (diff @ [hunk_header hunkStart hunk] @ hunk)
            else diff_loop originalLines modifiedLines (i + 1) (j + 1) hunkStart hunk diff)
         else
           (case findLookAhead originalLines modifiedLines i j [1, 2, 3] of
              Some (LinesRemoved lookAhead) \<Rightarrow>
                diff_loop originalLines modifiedLines (i + lookAhead) j
                  (if hunkStart = - 1 then int i else hunkStart)
                  (hunk @ map (\<lambda>k. minus_line originalLines (i + k)) [0..<lookAhead]) diff
            | Some (LinesAdded lookAhead) \<Rightarrow>
                diff_loop originalLines modifiedLines i (j + lookAhead)
                  (if hunkStart = - 1 then int i else hunkStart)
                  (hunk @ map (\<lambda>k. plus_line modifiedLines (j + k)) [0..<lookAhead]) diff
            | None \<Rightarrow>
                diff_loop originalLines modifiedLines
                  (if i < length originalLines then i + 1 else i)
                  (if j < length modifiedLines then j + 1 else j)
                  (if hunkStart = - 1 then int i else hunkStart)
                  (hunk @ (if i < length originalLines then [minus_line originalLines i] else [])
                        @ (if j < length modifiedLines then [plus_line modifiedLines j] else []))
                  diff))
      else (hunkStart, hunk, diff))"
  by pat_completeness auto

lemma findLookAhead_removed:
  "findLookAhead ol ml i j las = Some (LinesRemoved la) \<Longrightarrow>
     la \<in> set las \<and> nth_opt ol (i + la) = nth_opt ml j"
  by (induction las) (auto split: if_splits)

lemma findLookAhead_added:
  "findLookAhead ol ml i j las = Some (LinesAdded la) \<Longrightarrow>
     la \<in> set las \<and> nth_opt ol i = nth_opt ml (j + la)"
  by (induction las) (auto split: if_splits)

termination diff_loop
proof (relation "measure (\<lambda>(ol, ml, i, j, hs, hunk, diff). (length ol - i) + (length ml - j))",
       goal_cases)
  case 1
  show ?case by simp
next
  case (2 ol ml i j hs hunk diff)
  then show ?case by (auto simp: nth_opt_def split: if_splits)
next
  case (3 ol ml i j hs hunk diff)
  then show ?case by (auto simp: nth_opt_def split: if_splits)
next
  case (4 ol ml i j hs hunk diff)
  then show ?case by (auto simp: nth_opt_def split: if_splits)
next
  case (5 ol ml i j hs hunk diff r la)
  from 5(3) have "la \<in> {1, 2, 3}" and "nth_opt ol (i + la) = nth_opt ml j"
    using findLookAhead_removed [of ol ml i j "[1, 2, 3]" la] "5" by auto
  with 5(1) show ?case by (auto simp: nth_opt_def split: if_splits)
next
  case (6 ol ml i j hs hunk diff r la)
  from 6(3) have "la \<in> {1, 2, 3}" and "nth_opt ol i = nth_opt ml (j + la)"
    using findLookAhead_added [of ol ml i j "[1, 2, 3]" la] "6" by auto
  with 6(1) show ?case by (auto simp: nth_opt_def split: if_splits)
qed

declare diff_loop.simps [simp del]

definition generateUnifiedDiff :: "string \<Rightarrow> string \<Rightarrow> string \<Rightarrow> string" where
  "generateUnifiedDiff original modified filename =
     (let originalLines = split_lines original;
          modifiedLines = split_lines modified;
          diff0 = [''--- a/'' @ filename, ''+++ b/'' @ filename];
          (hunkStart, hunk, diff) = diff_loop originalLines modifiedLines 0 0 (- 1) [] diff0
      in join_lines (if hunk \<noteq> [] then diff @ [last_hunk_header hunkStart] @ hunk else diff))"

section \<open>Line diff of two code snippets (\<open>generateDiff\<close>)\<close>

text \<open>JavaScript truthiness of a line: \<open>undefined\<close> and the empty string are falsy.\<close>

definition truthy :: "string option \<Rightarrow> bool" where
  "truthy v = (case v of None \<Rightarrow> False | Some s \<Rightarrow> s \<noteq> [])"

text \<open>The body of the loop, for the index \<open>i\<close>: the lines pushed.\<close>

definition diff_at :: "string list \<Rightarrow> string list \<Rightarrow> nat \<Rightarrow> string list" where
  "diff_at originalLines modifiedLines i =
     (let origLine = nth_opt originalLines i;
          modLine = nth_opt modifiedLines i
      in if origLine = modLine then [''  '' @ (case origLine of None \<Rightarrow> [] | Some s \<Rightarrow> s)]
         else if truthy origLine \<and> \<not> truthy modLine then [''- '' @ template_str origLine]
         else if \<not> truthy origLine \<and> truthy modLine then [''+ '' @ template_str modLine]
         else [''- '' @ template_str origLine, ''+ '' @ template_str modLine])"

definition generateDiff :: "string \<Rightarrow> string \<Rightarrow> string" where
  "generateDiff original modified =
     (let originalLines = split_lines original;
          modifiedLines = split_lines modified;
          maxLen = max (length originalLines) (length modifiedLines)
      in join_lines (concat (map (diff_at originalLines modifiedLines) [0..<maxLen])))"

section \<open>Applying a diff to the original (from the specification)\<close>

text \<open>
  The specification's round trip applies the diff to the original text: the \<open>+\<close> lines
  take the place of the \<open>-\<close> lines. The source has no function for this; the two
  definitions of this section follow the specification's words, one for each format.

  For the output of \<open>generateDiff\<close>: a line starting with \<open>+ \<close> is added, a line
  starting with \<open>- \<close> removes the next line of the original, any other line keeps
  the next line of the original.
\<close>

fun patch_lines :: "string list \<Rightarrow> string list \<Rightarrow> string list" where
  "patch_lines orig [] = []"
| "patch_lines orig (d # ds) =
     (if starts_with d ''+ '' then drop 2 d # patch_lines orig ds
      else if starts_with d ''- '' then patch_lines (tl orig) ds
      else (case orig of [] \<Rightarrow> drop 2 d # patch_lines [] ds
            | l # ls \<Rightarrow> l # patch_lines ls ds))"

definition applyLineDiff :: "string \<Rightarrow> string \<Rightarrow> string" where
  "applyLineDiff original diff = join_lines (patch_lines (split_lines original) (split_lines diff))"

text \<open>
  For the output of \<open>generateUnifiedDiff\<close>: the two file header lines are skipped; a
  hunk header \<open>@@ -n ...\<close> copies the original up to line \<open>n\<close> (these lines
  are unchanged); a \<open>-\<close> line removes the next line of the original and a \<open>+\<close>
  line is added; the rest of the original follows the last hunk.
\<close>

definition is_digit :: "char \<Rightarrow> bool" where
  "is_digit c = (c \<in> set ''0123456789'')"

definition digit_val :: "char \<Rightarrow> nat" where
  "digit_val c = of_char c - 48"

definition parse_nat :: "string \<Rightarrow> nat" where
  "parse_nat s = foldl (\<lambda>acc c. acc * 10 + digit_val c) 0 s"

text \<open>The first line number of a hunk header: the digits after \<open>@@ -\<close>.\<close>

definition hunk_start :: "string \<Rightarrow> nat" where
  "hunk_start h = parse_nat (takeWhile is_digit (drop 4 h))"

fun hunk_step :: "string list \<Rightarrow> nat \<times> string list \<Rightarrow> string \<Rightarrow> nat \<times> string list" where
  "hunk_step orig (c, out) l =
     (if starts_with l ''@@'' then
        (let s = hunk_start l - 1 in (max c s, out @ take (s - c) (drop c orig)))
      else if starts_with l ''-'' then (c + 1, out)
      else if starts_with l ''+'' then (c, out @ [tl l])
      else (c, out))"

definition applyUnifiedDiff :: "string \<Rightarrow> string \<Rightarrow> string" where
  "applyUnifiedDiff original diff =
     (let orig = split_lines original;
          (c, out) = foldl (hunk_step orig) (0, []) (drop 2 (split_lines diff))
      in join_lines (out @ drop c orig))"


section \<open>Data model (\<open>types.ts\<close>)\<close>

datatype Platform = Ios | Android | Flutter | ReactNative | Web

datatype Severity = Critical | High | Medium | Low | Info

datatype FixStatus = Pending | Confirmed | Rejected | Applied | Failed

datatype ConfirmAction = Approve | Reject | Modify

datatype RiskLevel = RiskLow | RiskMedium | RiskHigh

record ImpactInfo =
  filesAffected :: "string list"
  testsAffected :: "string list"
  riskLevel :: RiskLevel
  breakingChange :: bool
  requiresRetest :: bool

record AlternativeFix =
  alt_description :: string
  alt_suggestedCode :: string
  alt_diff :: string
  tradeoffs :: string

text \<open>\<open>FixSuggestion\<close>; \<open>line\<close> is a JavaScript number holding an integer.\<close>

record FixSuggestion =
  f_id :: string
  f_issueId :: string
  f_title :: string
  f_description :: string
  f_confidence :: nat
  f_file :: string
  f_line :: int
  f_originalCode :: string
  f_suggestedCode :: string
  f_diff :: string
  f_impact :: ImpactInfo
  f_alternatives :: "AlternativeFix list option"
  f_status :: FixStatus
  f_createdAt :: string
  f_confirmedAt :: "string option"
  f_appliedAt :: "string option"

record FixConfirmation =
  c_fixId :: string
  c_action :: ConfirmAction
  c_modifiedCode :: "string option"
  c_reason :: "string option"
  c_confirmedAt :: string

text \<open>\<open>FixApplication\<close>; its optional \<open>retestResult\<close> is never set by the code modelled
  here and is left out.\<close>

record FixApplication =
  a_fixId :: string
  a_success :: bool
  a_backupPath :: "string option"
  a_error :: "string option"
  a_appliedAt :: string

record StoredFix =
  sf_fix :: FixSuggestion
  sf_projectPath :: string
  sf_createdAt :: string
  sf_updatedAt :: string
  sf_confirmation :: "FixConfirmation option"
  sf_application :: "FixApplication option"

section \<open>The fix store (\<open>storage/index.ts\<close>)\<close>

text \<open>
  The store is the array of \<open>StoredFix\<close> that \<open>readJson(FIXES_FILE, [])\<close> returns and
  \<open>writeJson\<close> writes back; it is a state of its own, apart from the project's files.
  The clock (\<open>new Date().toISOString()\<close>) is an argument of every operation that reads it.
\<close>

type_synonym fix_store = "StoredFix list"

definition getFixById :: "fix_store \<Rightarrow> string \<Rightarrow> StoredFix option" where
  "getFixById fixes ident = find (\<lambda>f. f_id (sf_fix f) = ident) fixes"

text \<open>\<open>fixes.find(...)\<close> followed by assignments to the fields of the entry found: the first
  entry with the id is replaced.\<close>

fun update_first :: "('a \<Rightarrow> bool) \<Rightarrow> ('a \<Rightarrow> 'a) \<Rightarrow> 'a list \<Rightarrow> 'a list" where
  "update_first P g [] = []"
| "update_first P g (x # xs) = (if P x then g x # xs else x # update_first P g xs)"

definition updateFixConfirmation ::
  "string \<Rightarrow> FixConfirmation \<Rightarrow> string \<Rightarrow> fix_store \<Rightarrow> bool \<times> fix_store" where
  "updateFixConfirmation fixId conf now fixes =
     (case find (\<lambda>f. f_id (sf_fix f) = fixId) fixes of
        Some _ \<Rightarrow>
          (True,
           update_first (\<lambda>f. f_id (sf_fix f) = fixId)
             (\<lambda>f. f\<lparr>sf_confirmation := Some conf,
                    sf_fix := (sf_fix f)\<lparr>f_status := (if c_action conf = Approve then Confirmed else Rejected),
                                    f_confirmedAt := Some (c_confirmedAt conf)\<rparr>,
                    sf_updatedAt := now\<rparr>)
             fixes)
      | None \<Rightarrow> (False, fixes))"

definition updateFixApplication ::
  "string \<Rightarrow> FixApplication \<Rightarrow> string \<Rightarrow> fix_store \<Rightarrow> bool \<times> fix_store" where
  "updateFixApplication fixId app now fixes =
     (case find (\<lambda>f. f_id (sf_fix f) = fixId) fixes of
        Some _ \<Rightarrow>
          (True,
           update_first (\<lambda>f. f_id (sf_fix f) = fixId)
             (\<lambda>f. f\<lparr>sf_application := Some app,
                    sf_fix := (sf_fix f)\<lparr>f_status := (if a_success app then Applied else Failed),
                                    f_appliedAt := Some (a_appliedAt app)\<rparr>,
                    sf_updatedAt := now\<rparr>)
             fixes)
      | None \<Rightarrow> (False, fixes))"

text \<open>\<open>saveFix\<close>: an entry with the same id is replaced, keeping its creation time, its
  confirmation and its application; a new one is appended.\<close>

definition saveFix :: "FixSuggestion \<Rightarrow> string \<Rightarrow> string \<Rightarrow> fix_store \<Rightarrow> fix_store" where
  "saveFix f projPath now fixes =
     (case find (\<lambda>g. f_id (sf_fix g) = f_id f) fixes of
        Some old \<Rightarrow>
          update_first (\<lambda>g. f_id (sf_fix g) = f_id f)
            (\<lambda>_. \<lparr>sf_fix = f, sf_projectPath = projPath, sf_createdAt = sf_createdAt old, sf_updatedAt = now,
                   sf_confirmation = sf_confirmation old, sf_application = sf_application old\<rparr>)
            fixes
      | None \<Rightarrow>
          fixes @ [\<lparr>sf_fix = f, sf_projectPath = projPath, sf_createdAt = now, sf_updatedAt = now,
                    sf_confirmation = None, sf_application = None\<rparr>])"

fun saveFixes :: "FixSuggestion list \<Rightarrow> string \<Rightarrow> string \<Rightarrow> fix_store \<Rightarrow> fix_store" where
  "saveFixes [] projPath now fixes = fixes"
| "saveFixes (f # fs) projPath now fixes = saveFixes fs projPath now (saveFix f projPath now fixes)"

section \<open>Confirming a fix (\<open>confirmFix\<close>)\<close>

record ConfirmFixParams =
  cp_fixId :: string
  cp_action :: ConfirmAction
  cp_modifiedCode :: "string option"
  cp_reason :: "string option"

record ConfirmFixResult =
  cr_success :: bool
  cr_confirmation :: FixConfirmation
  cr_fix :: "FixSuggestion option"
  cr_message :: string

text \<open>\<open>reason || 'No reason provided'\<close>: an absent or empty reason is falsy.\<close>

definition reason_or_default :: "string option \<Rightarrow> string" where
  "reason_or_default r = (case r of None \<Rightarrow> ''No reason provided''
                          | Some t \<Rightarrow> if t = [] then ''No reason provided'' else t)"

definition confirmFix :: "ConfirmFixParams \<Rightarrow> string \<Rightarrow> fix_store \<Rightarrow> ConfirmFixResult \<times> fix_store" where
  "confirmFix params now fixes =
     (case getFixById fixes (cp_fixId params) of
        None \<Rightarrow>
          (\<lparr>cr_success = False,
            cr_confirmation = \<lparr>c_fixId = cp_fixId params, c_action = cp_action params,
                               c_modifiedCode = None, c_reason = None, c_confirmedAt = now\<rparr>,
            cr_fix = None,
            cr_message = ''Fix not found: '' @ cp_fixId params\<rparr>, fixes)
      | Some storedFix \<Rightarrow>
          (let conf = \<lparr>c_fixId = cp_fixId params, c_action = cp_action params,
                       c_modifiedCode = cp_modifiedCode params, c_reason = cp_reason params,
                       c_confirmedAt = now\<rparr>;
               (updated, fixes') = updateFixConfirmation (cp_fixId params) conf now fixes
           in if \<not> updated then
                (\<lparr>cr_success = False, cr_confirmation = conf, cr_fix = Some (sf_fix storedFix),
                  cr_message = ''Failed to update fix confirmation''\<rparr>, fixes')
              else
                (\<lparr>cr_success = True, cr_confirmation = conf, cr_fix = Some (sf_fix storedFix),
                  cr_message =
                    (case cp_action params of
                       Approve \<Rightarrow> ''Fix approved: '' @ f_title (sf_fix storedFix) @ ''. Ready to apply.''
                     | Reject \<Rightarrow> ''Fix rejected: '' @ f_title (sf_fix storedFix) @ ''. ''
                                   @ reason_or_default (cp_reason params)
                     | Modify \<Rightarrow> ''Fix modified: '' @ f_title (sf_fix storedFix)
                                   @ ''. Using custom code.'')\<rparr>, fixes')))"

section \<open>The file system\<close>

text \<open>
  The files the tool reads and writes: \<open>files\<close> maps the path of a regular file to its text,
  \<open>dirs\<close> is the set of existing directories, and \<open>write_error\<close> gives, for a path that
  cannot be written or created (a read-only file, a missing or protected directory), the
  message of the exception that \<open>fs.writeFileSync\<close> or \<open>fs.mkdirSync\<close> throws there.
  Whether a path is writable does not change over the operations modelled.

  The file system keeps a \<open>journal\<close> of the changes made to it, the oldest first: every
  call of \<open>fs.writeFileSync\<close> or \<open>fs.mkdirSync\<close> that returns adds its entry, a call that
  throws changes nothing and adds none. The journal is what shows in which order a
  function has written its files.
\<close>

datatype fs_event = FileWritten string string | DirMade string

record filesystem =
  files :: "string \<rightharpoonup> string"
  dirs :: "string set"
  write_error :: "string \<rightharpoonup> string"
  journal :: "fs_event list"

definition existsSync :: "filesystem \<Rightarrow> string \<Rightarrow> bool" where
  "existsSync fsys p = (files fsys p \<noteq> None \<or> p \<in> dirs fsys)"

text \<open>Exceptions are the left summand, holding \<open>error.message\<close>.\<close>

definition readFileSync :: "filesystem \<Rightarrow> string \<Rightarrow> string + string" where
  "readFileSync fsys p =
     (case files fsys p of
        None \<Rightarrow> Inl (''ENOENT: no such file or directory, open '' @ [CHR 0x27] @ p @ [CHR 0x27])
      | Some content \<Rightarrow> Inr content)"

definition writeFileSync :: "filesystem \<Rightarrow> string \<Rightarrow> string \<Rightarrow> string + filesystem" where
  "writeFileSync fsys p content =
     (case write_error fsys p of
        Some msg \<Rightarrow> Inl msg
      | None \<Rightarrow> Inr (fsys\<lparr>files := (files fsys)(p \<mapsto> content),
                          journal := journal fsys @ [FileWritten p content]\<rparr>))"

definition mkdirSync :: "filesystem \<Rightarrow> string \<Rightarrow> string + filesystem" where
  "mkdirSync fsys p =
     (case write_error fsys p of
        Some msg \<Rightarrow> Inl msg
      | None \<Rightarrow> Inr (fsys\<lparr>dirs := insert p (dirs fsys),
                          journal := journal fsys @ [DirMade p]\<rparr>))"

section \<open>Applying a fix (\<open>applyFix\<close>)\<close>

text \<open>The post-write check: for the four JavaScript and TypeScript extensions the numbers of
  opening and closing braces, then of parentheses, must agree; every other extension
  passes.\<close>

definition count_char :: "char \<Rightarrow> string \<Rightarrow> nat" where
  "count_char c s = length (filter (\<lambda>x. x = c) s)"

definition validateSyntax :: "string \<Rightarrow> string \<Rightarrow> string option" where
  "validateSyntax filePath content =
     (let ext = extname filePath
      in if ext = ''.js'' \<or> ext = ''.jsx'' \<or> ext = ''.ts'' \<or> ext = ''.tsx'' then
           (if count_char CHR ''{'' content \<noteq> count_char CHR ''}'' content
              then Some ''Unbalanced braces''
            else if count_char CHR ''('' content \<noteq> count_char CHR '')'' content
              then Some ''Unbalanced parentheses''
            else None)
         else None)"

record ApplyFixParams =
  ap_fixId :: string
  ap_backup :: "bool option"
  ap_validate :: "bool option"
  ap_dryRun :: "bool option"

record ApplyFixResult =
  r_success :: bool
  r_application :: FixApplication
  r_backupPath :: "string option"
  r_error :: "string option"
  r_diff :: "string option"

text \<open>The state the tool works on: the fix store and the project's files.\<close>

record world =
  store :: fix_store
  fsys :: filesystem

text \<open>The two readings of the clock: \<open>new Date().toISOString()\<close> and \<open>Date.now()\<close>.\<close>

record clock =
  nowIso :: string
  nowMs :: nat

text \<open>A destructuring default, \<open>{ backup = true }\<close>.\<close>

definition with_default :: "bool \<Rightarrow> bool option \<Rightarrow> bool" where
  "with_default d v = (case v of None \<Rightarrow> d | Some b \<Rightarrow> b)"

text \<open>The code to splice in: the confirmation's \<open>modifiedCode\<close> when the action is
  \<open>modify\<close> and the code is present and not the empty string, else \<open>suggestedCode\<close>.\<close>

definition codeToApply :: "StoredFix \<Rightarrow> string" where
  "codeToApply storedFix =
     (case sf_confirmation storedFix of
        None \<Rightarrow> f_suggestedCode (sf_fix storedFix)
      | Some conf \<Rightarrow>
          (if c_action conf = Modify then
             (case c_modifiedCode conf of
                None \<Rightarrow> f_suggestedCode (sf_fix storedFix)
              | Some m \<Rightarrow> if m = [] then f_suggestedCode (sf_fix storedFix) else m)
           else f_suggestedCode (sf_fix storedFix)))"

text \<open>The inner loop of the search: every line of \<open>originalCode\<close> equals, after trimming,
  the file's line at the same offset from \<open>i\<close>.\<close>

definition window_matches :: "string list \<Rightarrow> string list \<Rightarrow> nat \<Rightarrow> bool" where
  "window_matches lines originalCodeLines i =
     list_all (\<lambda>j. i + j < length lines \<and> trim (lines ! (i + j)) = trim (originalCodeLines ! j))
       [0..<length originalCodeLines]"

text \<open>The outer loop: the first matching index, or \<open>-1\<close>.\<close>

definition findStartLine :: "string list \<Rightarrow> string list \<Rightarrow> int" where
  "findStartLine lines originalCodeLines =
     (case find (window_matches lines originalCodeLines) [0..<length lines] of
        Some i \<Rightarrow> int i
      | None \<Rightarrow> - 1)"

text \<open>The new content: without a match, \<open>startLine\<close> becomes \<open>Math.max(0, fix.line - 2)\<close>;
  the lines from \<open>startLine\<close>, as many as \<open>originalCode\<close> has, are replaced by the new
  code. The \<open>else\<close> branch appends the commented block.\<close>

definition patchContent :: "FixSuggestion \<Rightarrow> string \<Rightarrow> string \<Rightarrow> string" where
  "patchContent fx code originalContent =
     (let lines = split_lines originalContent;
          originalCodeLines = split_lines (f_originalCode fx);
          newCodeLines = split_lines code;
          found = findStartLine lines originalCodeLines;
          startLine = (if found = - 1 then max 0 (f_line fx - 2) else found)
      in if startLine \<ge> 0 then
           join_lines (take (nat startLine) lines @ newCodeLines
                       @ drop (nat startLine + length originalCodeLines) lines)
         else
           originalContent @ [newline, newline] @ ''// TODO: Apply fix manually'' @ [newline]
             @ ''// '' @ join_with (newline # ''// '') newCodeLines)"

definition failure_result :: "string \<Rightarrow> string option \<Rightarrow> string \<Rightarrow> string \<Rightarrow> ApplyFixResult" where
  "failure_result fixId backupPath msg now =
     \<lparr>r_success = False,
      r_application = \<lparr>a_fixId = fixId, a_success = False, a_backupPath = backupPath,
                       a_error = Some msg, a_appliedAt = now\<rparr>,
      r_backupPath = None, r_error = Some msg, r_diff = None\<rparr>"

text \<open>Where the backup goes: the directory \<open>.test-genie-backups\<close> beside the file, and
  in it the file's base name followed by \<open>Date.now()\<close> and \<open>.bak\<close>.\<close>

definition backupDirOf :: "string \<Rightarrow> string" where
  "backupDirOf file = path_join [dirname file, ''.test-genie-backups'']"

definition backupPathOf :: "string \<Rightarrow> nat \<Rightarrow> string" where
  "backupPathOf file ms =
     path_join [backupDirOf file, basename file @ ''.'' @ show_nat ms @ ''.bak'']"

text \<open>The block \<open>if (backup) { try { ... } catch { ... } }\<close>. An exception leaves the
  \<open>try\<close>: before \<open>backupPath\<close> is assigned when \<open>mkdirSync\<close> throws, after it when
  the write throws; both are swallowed (\<open>Non-fatal error, continue without backup\<close>).\<close>

definition createBackup ::
  "bool \<Rightarrow> string \<Rightarrow> string \<Rightarrow> nat \<Rightarrow> filesystem \<Rightarrow> string option \<times> filesystem" where
  "createBackup backup file originalContent ms fs0 =
     (if \<not> backup then (None, fs0)
      else
        (let backupDir = backupDirOf file
         in case (if \<not> existsSync fs0 backupDir then mkdirSync fs0 backupDir else Inr fs0) of
              Inl _ \<Rightarrow> (None, fs0)
            | Inr fs1 \<Rightarrow>
                (let backupPath = backupPathOf file ms
                 in case writeFileSync fs1 backupPath originalContent of
                      Inl _ \<Rightarrow> (Some backupPath, fs1)
                    | Inr fs2 \<Rightarrow> (Some backupPath, fs2))))"

text \<open>\<open>backupPath && fs.existsSync(backupPath)\<close>.\<close>

definition backup_available :: "filesystem \<Rightarrow> string option \<Rightarrow> bool" where
  "backup_available fs0 backupPath =
     (case backupPath of None \<Rightarrow> False | Some bp \<Rightarrow> bp \<noteq> [] \<and> existsSync fs0 bp)"

text \<open>\<open>applyFix\<close> returns its result and the new state. An exception that leaves the
  function is the left summand.\<close>

type_synonym apply_outcome = "(string + ApplyFixResult) \<times> world"

text \<open>What both failure paths after the backup do: \<open>if (backupPath && fs.existsSync(backupPath))
  fs.writeFileSync(fix.file, originalContent)\<close>, then the failure result. The restoring write
  is inside a \<open>catch\<close> block or outside any \<open>try\<close>: when it throws, the exception
  leaves \<open>applyFix\<close>.\<close>

definition restoreAndFail ::
  "string \<Rightarrow> string option \<Rightarrow> string \<Rightarrow> string \<Rightarrow> string \<Rightarrow> string \<Rightarrow> filesystem \<Rightarrow> world
     \<Rightarrow> apply_outcome" where
  "restoreAndFail fixId backupPath msg now file originalContent fs0 w =
     (if backup_available fs0 backupPath then
        (case writeFileSync fs0 file originalContent of
           Inl msg2 \<Rightarrow> (Inl msg2, w\<lparr>fsys := fs0\<rparr>)
         | Inr fs1 \<Rightarrow> (Inr (failure_result fixId backupPath msg now), w\<lparr>fsys := fs1\<rparr>))
      else (Inr (failure_result fixId backupPath msg now), w\<lparr>fsys := fs0\<rparr>))"

text \<open>The part of \<open>applyFix\<close> after the dry-run return: create the backup, write the new
  content, validate it, record the application.\<close>

definition writeFix ::
  "string \<Rightarrow> bool \<Rightarrow> bool \<Rightarrow> clock \<Rightarrow> string \<Rightarrow> string \<Rightarrow> string \<Rightarrow> world \<Rightarrow> apply_outcome" where
  "writeFix fixId backup validate clk file originalContent newContent w =
     (let now = nowIso clk;
          (backupPath, fs1) = createBackup backup file originalContent (nowMs clk) (fsys w)
      in case writeFileSync fs1 file newContent of
           Inl msg \<Rightarrow>
             restoreAndFail fixId backupPath (''Failed to write file: '' @ msg) now
               file originalContent fs1 w
         | Inr fs2 \<Rightarrow>
             (case (if validate then validateSyntax file newContent else None) of
                Some err \<Rightarrow>
                  restoreAndFail fixId backupPath (''Syntax validation failed: '' @ err) now
                    file originalContent fs2 w
              | None \<Rightarrow>
                  (let app = \<lparr>a_fixId = fixId, a_success = True, a_backupPath = backupPath,
                               a_error = None, a_appliedAt = now\<rparr>;
                       (updated, store') = updateFixApplication fixId app now (store w)
                   in (Inr \<lparr>r_success = True, r_application = app, r_backupPath = backupPath,
                             r_error = None,
                             r_diff = Some (generateUnifiedDiff originalContent newContent file)\<rparr>,
                       \<lparr>store = store', fsys = fs2\<rparr>))))"

definition applyFix :: "ApplyFixParams \<Rightarrow> clock \<Rightarrow> world \<Rightarrow> apply_outcome" where
  "applyFix params clk w =
     (let fixId = ap_fixId params;
          backup = with_default True (ap_backup params);
          validate = with_default True (ap_validate params);
          dryRun = with_default False (ap_dryRun params);
          now = nowIso clk
      in case getFixById (store w) fixId of
           None \<Rightarrow> (Inr (failure_result fixId None (''Fix not found: '' @ fixId) now), w)
         | Some storedFix \<Rightarrow>
             (let fx = sf_fix storedFix
              in if f_status fx \<noteq> Confirmed \<and> sf_confirmation storedFix = None then
                   (Inr (failure_result fixId None ''Fix must be confirmed before applying'' now), w)
                 else
                   (case readFileSync (fsys w) (f_file fx) of
                      Inl _ \<Rightarrow>
                        (Inr (failure_result fixId None (''Failed to read file: '' @ f_file fx) now), w)
                    | Inr originalContent \<Rightarrow>
                        (let newContent = patchContent fx (codeToApply storedFix) originalContent
                         in if dryRun then
                              (Inr \<lparr>r_success = True,
                                    r_application = \<lparr>a_fixId = fixId, a_success = True,
                                      a_backupPath = None, a_error = None, a_appliedAt = now\<rparr>,
                                    r_backupPath = None, r_error = None,
                                    r_diff = Some (generateUnifiedDiff originalContent newContent
                                                     (f_file fx))\<rparr>, w)
                            else
                              writeFix fixId backup validate clk (f_file fx) originalContent
                                newContent w))))"

section \<open>Rolling a fix back (\<open>rollbackFix\<close>)\<close>

definition rollbackFix :: "string \<Rightarrow> world \<Rightarrow> (bool \<times> string) \<times> world" where
  "rollbackFix fixId w =
     (case getFixById (store w) fixId of
        None \<Rightarrow> ((False, ''Fix or application record not found''), w)
      | Some storedFix \<Rightarrow>
          (case sf_application storedFix of
             None \<Rightarrow> ((False, ''Fix or application record not found''), w)
           | Some app \<Rightarrow>
               (case a_backupPath app of
                  None \<Rightarrow> ((False, ''No backup available for rollback''), w)
                | Some bp \<Rightarrow>
                    (if bp = [] then ((False, ''No backup available for rollback''), w)
                     else
                       (case readFileSync (fsys w) bp of
                          Inl msg \<Rightarrow> ((False, ''Rollback failed: '' @ msg), w)
                        | Inr backupContent \<Rightarrow>
                            (case writeFileSync (fsys w) (f_file (sf_fix storedFix)) backupContent of
                               Inl msg \<Rightarrow> ((False, ''Rollback failed: '' @ msg), w)
                             | Inr fs1 \<Rightarrow>
                                 ((True, ''Successfully rolled back '' @ f_file (sf_fix storedFix)),
                                  w\<lparr>fsys := fs1\<rparr>)))))))"

section \<open>Sequences of operations\<close>

datatype operation =
    OpConfirm ConfirmFixParams string
  | OpApply ApplyFixParams clock
  | OpRollback string

fun step :: "operation \<Rightarrow> world \<Rightarrow> world" where
  "step (OpConfirm params now) w = w\<lparr>store := snd (confirmFix params now (store w))\<rparr>"
| "step (OpApply params clk) w = snd (applyFix params clk w)"
| "step (OpRollback fixId) w = snd (rollbackFix fixId w)"

fun run :: "operation list \<Rightarrow> world \<Rightarrow> world" where
  "run [] w = w"
| "run (opn # ops) w = run ops (step opn w)"

text \<open>Every stored fix has one of the four statuses \<open>pending\<close>, \<open>confirmed\<close>,
  \<open>rejected\<close>, \<open>applied\<close>.\<close>

definition status_legal :: "fix_store \<Rightarrow> bool" where
  "status_legal fixes =
     list_all (\<lambda>f. f_status (sf_fix f) \<in> {Pending, Confirmed, Rejected, Applied}) fixes"

section \<open>Detected issues (\<open>types.ts\<close>)\<close>

datatype IssueType =
    MemoryLeak | RetainCycle | UnclosedResource | RaceCondition | StateInconsistency
  | NullReference | TypeMismatch | UnhandledError | PerformanceBottleneck | UnusedCode
  | DeprecatedApi | SecurityVulnerability

datatype Reproducibility = Always | Intermittent | Rare

record DetectedIssue =
  i_id :: string
  i_type :: IssueType
  i_severity :: Severity
  i_title :: string
  i_description :: string
  i_file :: string
  i_line :: int
  i_column :: "int option"
  i_code :: "string option"
  i_suggestion :: "string option"
  i_relatedIssues :: "string list option"
  i_detectedAt :: string

record MemoryLeakInfo = DetectedIssue +
  objectType :: string

record LogicErrorInfo = DetectedIssue +
  li_context :: string
  possibleCause :: string
  reproducibility :: Reproducibility

section \<open>Regular expressions of the detection rules\<close>

text \<open>The class \<open>\w\<close>: letters, digits and the underscore.\<close>

definition is_word :: "char \<Rightarrow> bool" where
  "is_word c =
     (let n = (of_char c :: nat)
      in (65 \<le> n \<and> n \<le> 90) \<or> (97 \<le> n \<and> n \<le> 122) \<or> (48 \<le> n \<and> n \<le> 57) \<or> n = 95)"

text \<open>A literal at the head of the text: the text after it.\<close>

fun strip_prefix :: "string \<Rightarrow> string \<Rightarrow> string option" where
  "strip_prefix [] s = Some s"
| "strip_prefix (p # ps) [] = None"
| "strip_prefix (p # ps) (c # cs) = (if p = c then strip_prefix ps cs else None)"

text \<open>\<open>\s*\<close> followed by a literal that does not start with white space: the greedy
  \<open>\s*\<close> takes all the white space there is, and giving some of it back cannot help.\<close>

definition then_lit :: "string option \<Rightarrow> string \<Rightarrow> string option" where
  "then_lit r p = (case r of None \<Rightarrow> None | Some s \<Rightarrow> strip_prefix p (dropWhile is_space s))"

text \<open>The loop \<open>while ((match = re.exec(content)) !== null)\<close> of a global regular
  expression whose matches are never empty: \<open>m\<close> matches at the head of a text and gives
  what the rule reads from the match and the length of the match. The search tries every
  index from \<open>lastIndex\<close> on and goes on from the end of each match (\<open>skip\<close> counts the
  characters of the current match still to pass). The result lists, for each match,
  \<open>match.index\<close>, what was read and the length.\<close>

fun scan_matches ::
  "(string \<Rightarrow> ('a \<times> nat) option) \<Rightarrow> nat \<Rightarrow> nat \<Rightarrow> string \<Rightarrow> (nat \<times> 'a \<times> nat) list" where
  "scan_matches m skip idx [] = []"
| "scan_matches m (Suc skip) idx (c # cs) = scan_matches m skip (idx + 1) cs"
| "scan_matches m 0 idx (c # cs) =
     (case m (c # cs) of
        None \<Rightarrow> scan_matches m 0 (idx + 1) cs
      | Some (r, len) \<Rightarrow> (idx, r, len) # scan_matches m (len - 1) (idx + 1) cs)"


text \<open>\<open>useEffect\s*\(\s*\(\s*\)\s*=>\s*\{\<close> at the head of the text: the text after it.\<close>

definition effect_header :: "string \<Rightarrow> string option" where
  "effect_header s =
     then_lit (then_lit (then_lit (then_lit (then_lit (strip_prefix ''useEffect'' s)
       ''('') ''('') '')'') ''=>'') ''{''"

text \<open>
  \<open>useEffect\s*\(\s*\(\s*\)\s*=>\s*\{([^}]*(?:\{[^}]*\}[^}]*)*)\}\<close> at the head of the
  text: the group and the length of the match. After the header the greedy \<open>[^}]*\<close> runs up
  to the first closing brace (an opening brace is not excluded from it), the repeated group
  cannot start there, and the final \<open>\}\<close> matches that brace: the group is the text up to the
  first closing brace. Without any closing brace there is no match.
\<close>

definition match_effect :: "string \<Rightarrow> (string \<times> nat) option" where
  "match_effect s =
     (case effect_header s of
        None \<Rightarrow> None
      | Some r \<Rightarrow>
          (let body = takeWhile (\<lambda>c. c \<noteq> CHR ''}'') r
           in if length body < length r then Some (body, length s - length r + length body + 1)
              else None))"



section \<open>React memory leaks (\<open>analyzeReactMemoryLeaks\<close>)\<close>

text \<open>\<open>content.substring(0, index).split('\n').length\<close>.\<close>

definition lineNumberAt :: "string \<Rightarrow> nat \<Rightarrow> int" where
  "lineNumberAt content idx = int (length (split_lines (take idx content)))"

text \<open>\<open>xs.findIndex(p)\<close>: \<open>-1\<close> when no element satisfies \<open>p\<close>.\<close>

fun findIndex :: "('a \<Rightarrow> bool) \<Rightarrow> 'a list \<Rightarrow> int" where
  "findIndex p [] = - 1"
| "findIndex p (x # xs) = (if p x then 0 else (let k = findIndex p xs in if k = - 1 then - 1 else k + 1))"

text \<open>\<open>lines[k]?.trim()\<close> for a number \<open>k\<close> that may be negative.\<close>

definition trimmed_line :: "string list \<Rightarrow> int \<Rightarrow> string option" where
  "trimmed_line ls k = (if 0 \<le> k then map_option trim (nth_opt ls (nat k)) else None)"

text \<open>Every issue is built with \<open>uuidv4()\<close> and \<open>new Date().toISOString()\<close>. The rules are
  modelled as lists of issues still waiting for these two values; the \<open>k\<close>-th issue pushed
  gets the \<open>k\<close>-th id and the \<open>k\<close>-th reading of the clock.\<close>

definition number_issues :: "(nat \<Rightarrow> string) \<Rightarrow> (nat \<Rightarrow> string) \<Rightarrow> (string \<Rightarrow> string \<Rightarrow> 'a) list \<Rightarrow> 'a list" where
  "number_issues uuid clk makers = map (\<lambda>(k, mk). mk (uuid k) (clk k)) (enumerate 0 makers)"

definition effect_objectType :: "string \<Rightarrow> string" where
  "effect_objectType effectBody =
     (if str_includes effectBody ''addEventListener'' then ''EventListener''
      else if str_includes effectBody ''subscribe'' then ''Subscription''
      else if str_includes effectBody ''setInterval'' then ''Interval''
      else if str_includes effectBody ''setTimeout'' then ''Timeout''
      else if str_includes effectBody ''WebSocket'' then ''WebSocket''
      else ''Unknown'')"

text \<open>The body of the \<open>while\<close> loop for one match: the issue pushed, if any.\<close>

definition effect_issue ::
  "string \<Rightarrow> string \<Rightarrow> nat \<times> string \<times> nat \<Rightarrow> (string \<Rightarrow> string \<Rightarrow> MemoryLeakInfo) list" where
  "effect_issue filePath content m =
     (case m of (index, effectBody, len) \<Rightarrow>
        (let hasCleanup = str_includes effectBody ''return'';
             lineNum = lineNumberAt content index;
             needsCleanup =
               (str_includes effectBody ''addEventListener'' \<or>
                str_includes effectBody ''subscribe'' \<or>
                str_includes effectBody ''setInterval'' \<or>
                str_includes effectBody ''setTimeout'' \<or>
                str_includes effectBody ''WebSocket'');
             objectType = effect_objectType effectBody
         in if needsCleanup \<and> \<not> hasCleanup then
              [\<lambda>ident time.
                 \<lparr>i_id = ident, i_type = MemoryLeak, i_severity = High,
                  i_title = ''useEffect missing cleanup for '' @ objectType,
                  i_description = ''useEffect creates '' @ objectType @ '' but does not clean it up'',
                  i_file = filePath, i_line = lineNum, i_column = None,
                  i_code = Some (take 100 effectBody),
                  i_suggestion = Some (''Add return function to clean up '' @ objectType),
                  i_relatedIssues = None, i_detectedAt = time,
                  objectType = objectType\<rparr>]
            else []))"

definition listener_issue :: "string \<Rightarrow> string \<Rightarrow> string list \<Rightarrow> (string \<Rightarrow> string \<Rightarrow> MemoryLeakInfo) list" where
  "listener_issue filePath content lines =
     (if str_includes content ''addEventListener'' \<and> \<not> str_includes content ''removeEventListener''
      then
        (let lineNum = findIndex (\<lambda>l. str_includes l ''addEventListener'') lines + 1
         in [\<lambda>ident time.
               \<lparr>i_id = ident, i_type = MemoryLeak, i_severity = High,
                i_title = ''Event listener not removed'',
                i_description = ''Event listener is added but never removed'',
                i_file = filePath, i_line = lineNum, i_column = None,
                i_code = trimmed_line lines (lineNum - 1),
                i_suggestion = Some ''Add removeEventListener in cleanup function'',
                i_relatedIssues = None, i_detectedAt = time,
                objectType = ''EventListener''\<rparr>])
      else [])"

definition interval_issue :: "string \<Rightarrow> string \<Rightarrow> string list \<Rightarrow> (string \<Rightarrow> string \<Rightarrow> MemoryLeakInfo) list" where
  "interval_issue filePath content lines =
     (if str_includes content ''setInterval'' \<and> \<not> str_includes content ''clearInterval''
      then
        (let lineNum = findIndex (\<lambda>l. str_includes l ''setInterval'') lines + 1
         in [\<lambda>ident time.
               \<lparr>i_id = ident, i_type = MemoryLeak, i_severity = High,
                i_title = ''Interval not cleared'',
                i_description = ''setInterval is used but interval is never cleared'',
                i_file = filePath, i_line = lineNum, i_column = None,
                i_code = trimmed_line lines (lineNum - 1),
                i_suggestion = Some ''Store interval ID and call clearInterval in cleanup'',
                i_relatedIssues = None, i_detectedAt = time,
                objectType = ''Interval''\<rparr>])
      else [])"

definition analyzeReactMemoryLeaks ::
  "(nat \<Rightarrow> string) \<Rightarrow> (nat \<Rightarrow> string) \<Rightarrow> string \<Rightarrow> string \<Rightarrow> string list \<Rightarrow> MemoryLeakInfo list" where
  "analyzeReactMemoryLeaks uuid clk filePath content lines =
     number_issues uuid clk
       (concat (map (effect_issue filePath content) (scan_matches match_effect 0 0 content))
        @ listener_issue filePath content lines
        @ interval_issue filePath content lines)"

section \<open>Synthesising a fix (\<open>suggestFixes\<close>)\<close>











section \<open>Null references (\<open>detectNullReferences\<close>)\<close>

text \<open>\<open>(\w+)\<close> followed by a literal that starts with a character outside \<open>\w\<close>, at
  the head of the text: the greedy \<open>\w+\<close> takes the whole run of word characters, and a
  shorter run would be followed by a word character. The result is the group and the length
  of the match.\<close>

definition match_word_then :: "string \<Rightarrow> string \<Rightarrow> (string \<times> nat) option" where
  "match_word_then lit s =
     (let w = takeWhile is_word s
      in if w \<noteq> [] \<and> starts_with (drop (length w) s) lit then Some (w, length w + length lit)
         else None)"

text \<open>
  The tail \<open>\s*[\s\S]{0,50}?\1\.\<close> of the third pattern, at the head of the text, for the
  group \<open>w\<close>: the greedy \<open>\s*\<close> is tried from all the white space down to none, and for
  each the lazy \<open>[\s\S]{0,50}?\<close> from no character up to fifty; the first of these
  offsets at which \<open>w\<close> and a dot follow gives the match. The result is the length matched.
\<close>

definition match_access_tail :: "string \<Rightarrow> string \<Rightarrow> nat option" where
  "match_access_tail w t =
     (let ws = length (takeWhile is_space t);
          offsets = concat (map (\<lambda>c. map (\<lambda>k. c + k) [0..<51]) (rev [0..<Suc ws]))
      in map_option (\<lambda>off. off + length w + 1)
           (find (\<lambda>off. starts_with (drop off t) (w @ ''.'')) offsets))"

text \<open>The lazy \<open>[\s\S]*?\}\<close> followed by a tail: the closing braces are tried from the
  first one on.\<close>

fun lazy_to_brace :: "(string \<Rightarrow> nat option) \<Rightarrow> string \<Rightarrow> nat option" where
  "lazy_to_brace tail [] = None"
| "lazy_to_brace tail (c # cs) =
     (if c = CHR ''}'' then
        (case tail cs of
           Some n \<Rightarrow> Some (1 + n)
         | None \<Rightarrow> map_option Suc (lazy_to_brace tail cs))
      else map_option Suc (lazy_to_brace tail cs))"

text \<open>\<open>if\s*\(\s*(\w+)\s*\)\s*\{[\s\S]*?\}\s*[\s\S]{0,50}?\1\.\<close> at the head of the text:
  the group, the text matched, and the length of the match.\<close>

definition match_unsafe_access :: "string \<Rightarrow> ((string \<times> string) \<times> nat) option" where
  "match_unsafe_access s =
     (case then_lit (strip_prefix ''if'' s) ''('' of
        None \<Rightarrow> None
      | Some r1 \<Rightarrow>
          (let r2 = dropWhile is_space r1;
               w = takeWhile is_word r2
           in if w = [] then None
              else
                (case then_lit (then_lit (Some (drop (length w) r2)) '')'') ''{'' of
                   None \<Rightarrow> None
                 | Some r3 \<Rightarrow>
                     (case lazy_to_brace (match_access_tail w) r3 of
                        None \<Rightarrow> None
                      | Some n \<Rightarrow>
                          (let len = length s - length r3 + n
                           in Some ((w, take len s), len))))))"

definition force_unwrap_issue ::
  "string \<Rightarrow> string \<Rightarrow> string list \<Rightarrow> nat \<times> string \<times> nat \<Rightarrow> (string \<Rightarrow> string \<Rightarrow> LogicErrorInfo) list" where
  "force_unwrap_issue filePath content lines m =
     (case m of (index, name, len) \<Rightarrow>
        (let lineNum = lineNumberAt content index
         in [\<lambda>ident time.
               \<lparr>i_id = ident, i_type = NullReference, i_severity = Medium,
                i_title = ''Non-null assertion operator'',
                i_description = ''Force unwrap of '' @ name @ '' may cause runtime error if null'',
                i_file = filePath, i_line = lineNum, i_column = None,
                i_code = trimmed_line lines (lineNum - 1),
                i_suggestion = Some ''Use optional chaining (?.) or proper null check'',
                i_relatedIssues = None, i_detectedAt = time,
                li_context = ''Force unwrap'',
                possibleCause = ''Value may be null at runtime despite assertion'',
                reproducibility = Intermittent\<rparr>]))"

definition unsafe_access_issue ::
  "string \<Rightarrow> string \<Rightarrow> nat \<times> (string \<times> string) \<times> nat \<Rightarrow> (string \<Rightarrow> string \<Rightarrow> LogicErrorInfo) list" where
  "unsafe_access_issue filePath content m =
     (case m of (index, (varName, matched), len) \<Rightarrow>
        (let lineNum = lineNumberAt content index
         in if \<not> str_includes matched ''return'' \<and> \<not> str_includes matched ''throw'' then
              [\<lambda>ident time.
                 \<lparr>i_id = ident, i_type = NullReference, i_severity = Low,
                  i_title = ''Potential unsafe access after null check'',
                  i_description = varName @ '' accessed outside of null-check block'',
                  i_file = filePath, i_line = lineNum, i_column = None,
                  i_code = None,
                  i_suggestion = Some ''Ensure access is within null-check block or add guard clause'',
                  i_relatedIssues = None, i_detectedAt = time,
                  li_context = ''Null check scope'',
                  possibleCause = ''Variable may be null when accessed outside if block'',
                  reproducibility = Always\<rparr>]
            else []))"

definition swift_unwrap_issue ::
  "string \<Rightarrow> string \<Rightarrow> string list \<Rightarrow> nat \<times> string \<times> nat \<Rightarrow> (string \<Rightarrow> string \<Rightarrow> LogicErrorInfo) list" where
  "swift_unwrap_issue filePath content lines m =
     (case m of (index, varName, len) \<Rightarrow>
        (let lineNum = lineNumberAt content index
         in if varName \<in> set [''try'', ''as'', ''NSObject''] then []
            else
              [\<lambda>ident time.
                 \<lparr>i_id = ident, i_type = NullReference, i_severity = Medium,
                  i_title = ''Force unwrap of optional'',
                  i_description = ''Force unwrap of '' @ varName @ '' may cause crash if nil'',
                  i_file = filePath, i_line = lineNum, i_column = None,
                  i_code = trimmed_line lines (lineNum - 1),
                  i_suggestion = Some ''Use if let, guard let, or nil coalescing (??) instead'',
                  i_relatedIssues = None, i_detectedAt = time,
                  li_context = ''Force unwrap'',
                  possibleCause = ''Optional value may be nil at runtime'',
                  reproducibility = Intermittent\<rparr>]))"

definition kotlin_assert_issue ::
  "string \<Rightarrow> string \<Rightarrow> string list \<Rightarrow> nat \<times> string \<times> nat \<Rightarrow> (string \<Rightarrow> string \<Rightarrow> LogicErrorInfo) list" where
  "kotlin_assert_issue filePath content lines m =
     (case m of (index, name, len) \<Rightarrow>
        (let lineNum = lineNumberAt content index
         in [\<lambda>ident time.
               \<lparr>i_id = ident, i_type = NullReference, i_severity = Medium,
                i_title = ''Not-null assertion operator'',
                i_description = ''Not-null assertion on '' @ name @ '' may throw NPE'',
                i_file = filePath, i_line = lineNum, i_column = None,
                i_code = trimmed_line lines (lineNum - 1),
                i_suggestion = Some ''Use safe call (?.) or null check'',
                i_relatedIssues = None, i_detectedAt = time,
                li_context = ''Not-null assertion'',
                possibleCause = ''Value may be null at runtime'',
                reproducibility = Intermittent\<rparr>]))"

text \<open>\<open>detectNullReferences\<close>. The second loop of the TypeScript branch, over
  \<open>(\w+)\?\.[a-zA-Z]+\s*\(\<close>, has an empty body and pushes nothing.\<close>

definition detectNullReferences ::
  "(nat \<Rightarrow> string) \<Rightarrow> (nat \<Rightarrow> string) \<Rightarrow> string \<Rightarrow> string \<Rightarrow> Platform \<Rightarrow> LogicErrorInfo list" where
  "detectNullReferences uuid clk filePath content platform =
     (let lines = split_lines content
      in number_issues uuid clk
           ((if platform = ReactNative \<or> platform = Web then
               concat (map (force_unwrap_issue filePath content lines)
                         (scan_matches (match_word_then ''!.'') 0 0 content))
               @ concat (map (unsafe_access_issue filePath content)
                           (scan_matches match_unsafe_access 0 0 content))
             else [])
            @ (if platform = Ios then
                 concat (map (swift_unwrap_issue filePath content lines)
                           (scan_matches (match_word_then ''!'') 0 0 content))
               else [])
            @ (if platform = Android then
                 concat (map (kotlin_assert_issue filePath content lines)
                           (scan_matches (match_word_then ''!!'') 0 0 content))
               else [])))"

section \<open>A small project used in the examples\<close>

text \<open>One suggested fix for \<open>src/App.tsx\<close>, stored as \<open>pending\<close>, and the file it is for.\<close>

definition example_fix :: FixSuggestion where
  "example_fix =
     \<lparr>f_id = ''fix-1'', f_issueId = ''issue-1'', f_title = ''Fix: Non-null assertion operator'',
      f_description = ''Use optional chaining'', f_confidence = 85,
      f_file = ''src/App.tsx'', f_line = 2,
      f_originalCode = ''foo();'', f_suggestedCode = ''bar();'', f_diff = [],
      f_impact = \<lparr>filesAffected = [''src/App.tsx''], testsAffected = [], riskLevel = RiskLow,
                   breakingChange = False, requiresRetest = True\<rparr>,
      f_alternatives = None, f_status = Pending, f_createdAt = ''2024-01-01T00:00:00.000Z'',
      f_confirmedAt = None, f_appliedAt = None\<rparr>"

definition example_files :: filesystem where
  "example_files =
     \<lparr>files = [''src/App.tsx'' \<mapsto> ''init();'' @ [newline] @ ''foo();'' @ [newline] @ ''done();''],
      dirs = {''src''},
      write_error = Map.empty,
      journal = []\<rparr>"

definition example_world :: world where
  "example_world =
     \<lparr>store = saveFix example_fix ''/proj'' ''2024-01-01T00:00:00.000Z'' [],
      fsys = example_files\<rparr>"

definition example_clock :: clock where
  "example_clock = \<lparr>nowIso = ''2024-01-02T00:00:00.000Z'', nowMs = 1704153600000\<rparr>"

definition example_apply :: ApplyFixParams where
  "example_apply = \<lparr>ap_fixId = ''fix-1'', ap_backup = None, ap_validate = None, ap_dryRun = None\<rparr>"

definition example_approve :: ConfirmFixParams where
  "example_approve =
     \<lparr>cp_fixId = ''fix-1'', cp_action = Approve, cp_modifiedCode = None, cp_reason = None\<rparr>"

definition example_modify :: ConfirmFixParams where
  "example_modify =
     \<lparr>cp_fixId = ''fix-1'', cp_action = Modify, cp_modifiedCode = Some ''custom();'',
      cp_reason = None\<rparr>"

definition example_reject :: ConfirmFixParams where
  "example_reject =
     \<lparr>cp_fixId = ''fix-1'', cp_action = Reject, cp_modifiedCode = None,
      cp_reason = Some ''not needed''\<rparr>"

text \<open>The example project after \<open>confirmFix\<close> with each of the three actions.\<close>

definition example_approved_world :: world where
  "example_approved_world = step (OpConfirm example_approve ''2024-01-01T12:00:00.000Z'') example_world"

definition example_modified_world :: world where
  "example_modified_world = step (OpConfirm example_modify ''2024-01-01T12:00:00.000Z'') example_world"

definition example_rejected_world :: world where
  "example_rejected_world = step (OpConfirm example_reject ''2024-01-01T12:00:00.000Z'') example_world"

definition example_apply_no_backup :: ApplyFixParams where
  "example_apply_no_backup =
     \<lparr>ap_fixId = ''fix-1'', ap_backup = Some False, ap_validate = None, ap_dryRun = None\<rparr>"

text \<open>The same project with a suggested code that leaves a brace open.\<close>

definition example_unbalanced_world :: world where
  "example_unbalanced_world =
     step (OpConfirm example_approve ''2024-01-01T12:00:00.000Z'')
       \<lparr>store = saveFix (example_fix\<lparr>f_suggestedCode := ''if (ready) {''\<rparr>) ''/proj''
                  ''2024-01-01T00:00:00.000Z'' [],
        fsys = example_files\<rparr>"

text \<open>The approved fix, and a file edited since the fix was suggested: no line of it is the
  fix's \<open>originalCode\<close> any more.\<close>

definition example_drifted_world :: world where
  "example_drifted_world =
     example_approved_world
       \<lparr>fsys := example_files
          \<lparr>files := [''src/App.tsx'' \<mapsto> ''alpha();\<newline>beta();\<newline>gamma();'']\<rparr>\<rparr>"

text \<open>\<open>confirmFix\<close> with the action \<open>modify\<close> and the empty string as the new code.\<close>

definition example_modify_empty :: ConfirmFixParams where
  "example_modify_empty =
     \<lparr>cp_fixId = ''fix-1'', cp_action = Modify, cp_modifiedCode = Some [], cp_reason = None\<rparr>"

definition example_modified_empty_world :: world where
  "example_modified_empty_world =
     step (OpConfirm example_modify_empty ''2024-01-01T12:00:00.000Z'') example_world"

text \<open>Unfolding sets for evaluating the operations on concrete states.\<close>

lemmas store_eval = getFixById_def saveFix_def updateFixConfirmation_def updateFixApplication_def
  confirmFix_def Let_def example_fix_def example_world_def example_approve_def example_apply_def
  example_clock_def example_files_def example_modify_def example_reject_def
  example_apply_no_backup_def example_unbalanced_world_def example_drifted_world_def
  example_modify_empty_def example_modified_empty_world_def
  example_approved_world_def example_modified_world_def example_rejected_world_def

lemmas path_eval = backupDirOf_def backupPathOf_def path_join_def dirname_def basename_def slash_def strip_trailing_slashes_def
  normalize_path_def extname_def

lemmas apply_eval = applyFix_def with_default_def readFileSync_def patchContent_def codeToApply_def
  split_lines_def newline_def findStartLine_def window_matches_def trim_def is_space_def
  join_lines_def writeFix_def restoreAndFail_def backup_available_def failure_result_def
  createBackup_def existsSync_def mkdirSync_def writeFileSync_def show_nat.simps digit_char_def
  validateSyntax_def count_char_def rollbackFix_def

section \<open>The backup path is never the path of the file\<close>

lemma split_on_no_sep: "c \<notin> set ys \<Longrightarrow> split_on c ys = [ys]"
  by (induction ys) auto

lemma split_on_nonempty: "split_on c xs \<noteq> []"
  by (induction xs) (auto split: list.splits)

lemma split_on_append_sep:
  "c \<notin> set ys \<Longrightarrow> split_on c (xs @ c # ys) = split_on c xs @ [ys]"
  by (induction xs) (auto simp: split_on_no_sep split_on_nonempty split: list.splits)

lemma normalize_segments_append:
  "normalize_segments a acc (xs @ ys) = normalize_segments a (rev (normalize_segments a acc xs)) ys"
  by (induction xs arbitrary: acc) (auto split: list.splits)

lemma normalize_segments_snoc:
  "s \<noteq> [] \<Longrightarrow> s \<noteq> ''.'' \<Longrightarrow> s \<noteq> ''..'' \<Longrightarrow>
   normalize_segments a acc (xs @ [s]) = normalize_segments a acc xs @ [s]"
  by (simp add: normalize_segments_append [of a acc xs "[s]"])

lemma join_with_snoc:
  "join_with sep (xs @ [y]) = (if xs = [] then y else join_with sep xs @ sep @ y)"
  by (induction sep xs rule: join_with.induct) auto

lemma basename_after_slash:
  assumes "b \<noteq> []" "slash \<notin> set b" "z = [] \<or> last z = slash"
  shows "basename (z @ b) = b"
proof -
  have "last b \<noteq> slash" using assms(1,2) by (metis last_in_set)
  then have s: "strip_trailing_slashes (z @ b) = z @ b"
    using assms(1) by (cases b rule: rev_cases) (auto simp: strip_trailing_slashes_def)
  have "takeWhile (\<lambda>c. c \<noteq> slash) (rev b @ rev z) = rev b"
  proof (cases "z = []")
    case True
    then show ?thesis using assms(2) by (auto simp add: takeWhile_eq_all_conv)
  next
    case False
    then have "last z = slash" using assms(3) by simp
    then obtain z' where "z = z' @ [slash]" using False by (metis append_butlast_last_id)
    then show ?thesis using assms(2) by (simp add: takeWhile_append)
  qed
  then show ?thesis by (simp add: basename_def s)
qed

lemma basename_no_slash: "slash \<notin> set (basename p)"
  unfolding basename_def by (metis set_rev set_takeWhileD)

lemma digit_char_not_slash: "d < 10 \<Longrightarrow> digit_char d \<noteq> slash"
proof -
  assume "d < 10"
  then have "d \<in> {0,1,2,3,4,5,6,7,8,9}" by auto
  then show ?thesis by (auto simp: digit_char_def slash_def)
qed

lemma show_nat_no_slash: "slash \<notin> set (show_nat n)"
proof (induction n rule: show_nat.induct)
  case (1 n)
  show ?case
  proof (cases "n < 10")
    case True
    then show ?thesis using digit_char_not_slash [of n] by (subst show_nat.simps) auto
  next
    case False
    then show ?thesis using 1 digit_char_not_slash [of "n mod 10"] by (subst show_nat.simps) auto
  qed
qed

lemma basename_normalize:
  assumes "b \<noteq> []" "slash \<notin> set b" "b \<noteq> ''.''" "b \<noteq> ''..''" "z = [] \<or> last z = slash"
  shows "basename (normalize_path (z @ b)) = b"
proof -
  have last_b: "last b \<noteq> slash" using assms(1,2) by (metis last_in_set)
  obtain segs where segs: "split_on slash (z @ b) = segs @ [b]"
  proof (cases "z = []")
    case True
    then show ?thesis using that [of "[]"] assms(2) by (simp add: split_on_no_sep)
  next
    case False
    then obtain z' where "z = z' @ [slash]" using assms(5) by (metis append_butlast_last_id)
    then show ?thesis using that [of "split_on slash z'"] assms(2) by (simp add: split_on_append_sep)
  qed
  define a where "a = (hd (z @ b) \<noteq> slash)"
  define r where "r = normalize_segments a [] segs"
  have q: "join_with [slash] (normalize_segments a [] (split_on slash (z @ b))) =
        (if r = [] then b else join_with [slash] r @ [slash] @ b)"
    using assms by (simp add: segs normalize_segments_snoc join_with_snoc r_def)
  have "\<exists>y. normalize_path (z @ b) = y @ b \<and> (y = [] \<or> last y = slash)"
  proof (cases "r = []")
    case True
    then show ?thesis
      using q assms(1) last_b unfolding normalize_path_def Let_def a_def [symmetric]
      by (cases a) (auto simp: a_def)
  next
    case False
    then have "normalize_path (z @ b) = ((if a then [] else [slash]) @ join_with [slash] r @ [slash]) @ b"
      using q assms(1) last_b unfolding normalize_path_def Let_def a_def [symmetric] by (auto simp: a_def)
    then show ?thesis by (metis last_snoc append_assoc)
  qed
  then obtain y where "normalize_path (z @ b) = y @ b" "y = [] \<or> last y = slash" by blast
  then show ?thesis using basename_after_slash [OF assms(1,2)] by simp
qed

lemma backupPathOf_basename:
  "basename (backupPathOf fl ms) = basename fl @ ''.'' @ show_nat ms @ ''.bak''"
proof -
  let ?b = "basename fl @ ''.'' @ show_nat ms @ ''.bak''"
  let ?d = "backupDirOf fl"
  have b1: "?b \<noteq> []" by simp
  have b2: "slash \<notin> set ?b" using basename_no_slash show_nat_no_slash by (auto simp: slash_def)
  have b3: "?b \<noteq> ''.''" "?b \<noteq> ''..''"
    by (auto simp: append_eq_Cons_conv Cons_eq_append_conv)
  have "backupPathOf fl ms = normalize_path ((if ?d = [] then [] else ?d @ [slash]) @ ?b)"
    by (simp add: backupPathOf_def path_join_def)
  then show ?thesis
    using basename_normalize [OF b1 b2 b3, of "if ?d = [] then [] else ?d @ [slash]"] by simp
qed

lemma backupPathOf_differs: "backupPathOf fl ms \<noteq> fl"
proof
  assume "backupPathOf fl ms = fl"
  then have "basename fl = basename fl @ ''.'' @ show_nat ms @ ''.bak''"
    using backupPathOf_basename [of fl ms] by simp
  then have "length (basename fl) = length (basename fl @ ''.'' @ show_nat ms @ ''.bak'')"
    by simp
  then show False by simp
qed

lemma backupPathOf_nonempty: "backupPathOf fl ms \<noteq> []"
proof
  assume "backupPathOf fl ms = []"
  then have "basename [] = basename fl @ ''.'' @ show_nat ms @ ''.bak''"
    using backupPathOf_basename [of fl ms] by simp
  then show False by (simp add: basename_def strip_trailing_slashes_def)
qed

section \<open>The backup step\<close>

lemma createBackup_write_error:
  "write_error (snd (createBackup backup fl oc ms fs0)) = write_error fs0"
  by (auto simp: createBackup_def Let_def mkdirSync_def writeFileSync_def
      split: sum.splits option.splits)

lemma createBackup_files_cases:
  "files (snd (createBackup backup fl oc ms fs0)) = files fs0 \<or>
   files (snd (createBackup backup fl oc ms fs0)) = (files fs0)(backupPathOf fl ms \<mapsto> oc)"
  by (auto simp: createBackup_def Let_def mkdirSync_def writeFileSync_def
      split: sum.splits option.splits)

lemma createBackup_keeps_file: "files (snd (createBackup backup fl oc ms fs0)) fl = files fs0 fl"
  using createBackup_files_cases [of backup fl oc ms fs0] backupPathOf_differs [of fl ms] by auto

lemma createBackup_path:
  "fst (createBackup backup fl oc ms fs0) = None \<or>
   fst (createBackup backup fl oc ms fs0) = Some (backupPathOf fl ms)"
  by (auto simp: createBackup_def Let_def split: sum.splits)

lemma createBackup_disabled: "createBackup False fl oc ms fs0 = (None, fs0)"
  by (simp add: createBackup_def)

lemma createBackup_ok:
  assumes "write_error fs0 (backupDirOf fl) = None" "write_error fs0 (backupPathOf fl ms) = None"
  shows "fst (createBackup True fl oc ms fs0) = Some (backupPathOf fl ms)"
    and "files (snd (createBackup True fl oc ms fs0)) = (files fs0)(backupPathOf fl ms \<mapsto> oc)"
  using assms
  by (auto simp: createBackup_def Let_def mkdirSync_def writeFileSync_def
      split: sum.splits option.splits)

section \<open>The store under the three operations\<close>

lemma list_all_update_first:
  "list_all Q xs \<Longrightarrow> (\<And>x. Q (g x)) \<Longrightarrow> list_all Q (update_first P g xs)"
  by (induction xs) auto

lemma status_legal_confirmation:
  "status_legal xs \<Longrightarrow> status_legal (snd (updateFixConfirmation fixId conf now xs))"
  unfolding status_legal_def updateFixConfirmation_def
  by (auto split: option.splits intro!: list_all_update_first)

lemma status_legal_application:
  "status_legal xs \<Longrightarrow> a_success app \<Longrightarrow>
     status_legal (snd (updateFixApplication fixId app now xs))"
  unfolding status_legal_def updateFixApplication_def
  by (auto split: option.splits intro!: list_all_update_first)

lemma confirmFix_store:
  "snd (confirmFix params now xs) = xs \<or>
   snd (confirmFix params now xs) =
     snd (updateFixConfirmation (cp_fixId params)
            \<lparr>c_fixId = cp_fixId params, c_action = cp_action params,
             c_modifiedCode = cp_modifiedCode params, c_reason = cp_reason params,
             c_confirmedAt = now\<rparr> now xs)"
  by (auto simp: confirmFix_def Let_def split: option.splits prod.splits)

lemma restoreAndFail_store:
  "store (snd (restoreAndFail fixId bp msg now file oc fs0 w)) = store w"
  by (simp add: restoreAndFail_def split: sum.splits)

lemma restoreAndFail_not_success:
  "fst (restoreAndFail fixId bp msg now file oc fs0 w) = Inr r \<Longrightarrow> \<not> r_success r"
  by (auto simp: restoreAndFail_def failure_result_def split: sum.splits if_splits)

text \<open>\<open>writeFix\<close> either leaves the store as it is, and then does not report success, or
  records a successful application.\<close>

lemma writeFix_store:
  "(store (snd (writeFix fixId backup validate clk file oc nc w)) = store w \<and>
    (\<forall>r. fst (writeFix fixId backup validate clk file oc nc w) = Inr r \<longrightarrow> \<not> r_success r)) \<or>
   (\<exists>app. a_success app \<and>
      store (snd (writeFix fixId backup validate clk file oc nc w)) =
        snd (updateFixApplication fixId app (nowIso clk) (store w)))"
proof -
  obtain bp fs1 where
    b: "createBackup backup file oc (nowMs clk) (fsys w) = (bp, fs1)"
    by (cases "createBackup backup file oc (nowMs clk) (fsys w)")
  show ?thesis
  proof (cases "writeFileSync fs1 file nc")
    case (Inl msg)
    then show ?thesis
      using restoreAndFail_not_success
      by (simp add: writeFix_def b restoreAndFail_store)
  next
    case (Inr fs2)
    show ?thesis
    proof (cases "if validate then validateSyntax file nc else None")
      case (Some err)
      then show ?thesis
        using restoreAndFail_not_success
        by (simp add: writeFix_def b Inr restoreAndFail_store)
    next
      case None
      let ?app = "\<lparr>a_fixId = fixId, a_success = True, a_backupPath = bp, a_error = None,
                    a_appliedAt = nowIso clk\<rparr>"
      have "store (snd (writeFix fixId backup validate clk file oc nc w))
              = snd (updateFixApplication fixId ?app (nowIso clk) (store w))"
        by (simp add: writeFix_def Let_def b Inr None split: prod.splits)
      moreover have "a_success ?app" by simp
      ultimately show ?thesis by blast
    qed
  qed
qed

lemma applyFix_store:
  "(store (snd (applyFix params clk w)) = store w \<and>
    (\<forall>r. fst (applyFix params clk w) = Inr r \<longrightarrow> \<not> r_success r \<or> ap_dryRun params = Some True)) \<or>
   (\<exists>app. a_success app \<and>
      store (snd (applyFix params clk w)) =
        snd (updateFixApplication (ap_fixId params) app (nowIso clk) (store w)))"
  unfolding applyFix_def Let_def
  using writeFix_store
  by (simp split: option.splits sum.splits add: failure_result_def with_default_def)

lemma writeFix_failure_store:
  assumes "fst (writeFix fixId backup validate clk fl oc nc w) = Inr r" and "\<not> r_success r"
  shows "store (snd (writeFix fixId backup validate clk fl oc nc w)) = store w"
proof -
  obtain bp fs1 where
    b: "createBackup backup fl oc (nowMs clk) (fsys w) = (bp, fs1)"
    by (cases "createBackup backup fl oc (nowMs clk) (fsys w)")
  show ?thesis
  proof (cases "writeFileSync fs1 fl nc")
    case (Inl msg)
    then show ?thesis by (simp add: writeFix_def b restoreAndFail_store)
  next
    case (Inr fs2)
    show ?thesis
    proof (cases "if validate then validateSyntax fl nc else None")
      case (Some err)
      then show ?thesis by (simp add: writeFix_def b Inr restoreAndFail_store)
    next
      case None
      with assms show ?thesis
        by (auto simp add: writeFix_def Let_def b Inr split: prod.splits)
    qed
  qed
qed

lemma writeFix_throw_store:
  assumes "fst (writeFix fixId backup validate clk fl oc nc w) = Inl e"
  shows "store (snd (writeFix fixId backup validate clk fl oc nc w)) = store w"
proof -
  obtain bp fs1 where
    b: "createBackup backup fl oc (nowMs clk) (fsys w) = (bp, fs1)"
    by (cases "createBackup backup fl oc (nowMs clk) (fsys w)")
  show ?thesis
  proof (cases "writeFileSync fs1 fl nc")
    case (Inl msg)
    then show ?thesis by (simp add: writeFix_def b restoreAndFail_store)
  next
    case (Inr fs2)
    show ?thesis
    proof (cases "if validate then validateSyntax fl nc else None")
      case (Some err)
      then show ?thesis by (simp add: writeFix_def b Inr restoreAndFail_store)
    next
      case None
      with assms show ?thesis
        by (auto simp add: writeFix_def Let_def b Inr split: prod.splits)
    qed
  qed
qed

lemma applyFix_failure_store:
  assumes "fst (applyFix params clk w) = Inr r" and "\<not> r_success r"
  shows "store (snd (applyFix params clk w)) = store w"
  using assms unfolding applyFix_def Let_def
  by (auto split: option.splits sum.splits if_splits dest: writeFix_failure_store)

lemma applyFix_throw_store:
  assumes "fst (applyFix params clk w) = Inl e"
  shows "store (snd (applyFix params clk w)) = store w"
  using assms unfolding applyFix_def Let_def
  by (auto split: option.splits sum.splits if_splits dest: writeFix_throw_store)

lemma rollbackFix_store: "store (snd (rollbackFix fixId w)) = store w"
  by (simp add: rollbackFix_def split: option.splits sum.splits)

lemma step_legal: "status_legal (store w) \<Longrightarrow> status_legal (store (step opn w))"
proof (cases opn)
  case (OpConfirm params now)
  assume "status_legal (store w)"
  then show ?thesis
    using confirmFix_store [of params now "store w"] status_legal_confirmation [of "store w"]
    by (auto simp: OpConfirm)
next
  case (OpApply params clk)
  assume "status_legal (store w)"
  then show ?thesis
    using applyFix_store [of params clk w] status_legal_application [of "store w"]
    by (auto simp: OpApply)
next
  case (OpRollback fixId)
  assume "status_legal (store w)"
  then show ?thesis by (simp add: OpRollback rollbackFix_store)
qed

lemma run_legal: "status_legal (store w) \<Longrightarrow> status_legal (store (run ops w))"
  by (induction ops arbitrary: w) (auto intro: step_legal)

text \<open>
  Claim C10. Starting from a store in which every fix is \<open>pending\<close>, \<open>confirmed\<close>,
  \<open>rejected\<close> or \<open>applied\<close>, every sequence of \<open>confirmFix\<close>, \<open>applyFix\<close> and
  \<open>rollbackFix\<close> leaves every stored fix with one of these four statuses: \<open>failed\<close> is
  never assigned (and the type \<open>FixStatus\<close> has no \<open>rolled_back\<close>). The reasons are part of
  the statement: an \<open>applyFix\<close> that does not report success leaves the store as it
  was, and \<open>rollbackFix\<close> never changes the store.
\<close>

theorem status_only_four_values:
  "(status_legal (store w) \<longrightarrow> status_legal (store (run ops w))) \<and>
   (\<forall>r. fst (applyFix params clk w) = Inr r \<and> \<not> r_success r
        \<longrightarrow> store (snd (applyFix params clk w)) = store w) \<and>
   store (snd (rollbackFix fixId w)) = store w"
  using run_legal [of w ops] applyFix_failure_store [of params clk w]
    rollbackFix_store [of fixId w]
  by blast

theorem status_only_four_values_witness:
  "status_legal (store example_world) \<and>
   status_legal (store (run [OpConfirm example_approve ''2024-01-01T12:00:00.000Z'',
                             OpApply example_apply example_clock,
                             OpRollback ''fix-1''] example_world)) \<and>
   fst (applyFix example_apply example_clock example_world) =
     Inr (failure_result ''fix-1'' None ''Fix must be confirmed before applying''
            ''2024-01-02T00:00:00.000Z'') \<and>
   store (snd (applyFix example_apply example_clock example_world)) = store example_world"
proof -
  have h1: "status_legal (store example_world)"
    by (simp add: store_eval status_legal_def)
  have h2: "fst (applyFix example_apply example_clock example_world) =
              Inr (failure_result ''fix-1'' None ''Fix must be confirmed before applying''
                     ''2024-01-02T00:00:00.000Z'')"
    by (simp add: applyFix_def with_default_def store_eval)
  have h3: "\<not> r_success (failure_result ''fix-1'' None ''Fix must be confirmed before applying''
                            ''2024-01-02T00:00:00.000Z'')"
    by (simp add: failure_result_def)
  show ?thesis
    using status_only_four_values [of example_world
            "[OpConfirm example_approve ''2024-01-01T12:00:00.000Z'',
              OpApply example_apply example_clock, OpRollback ''fix-1'']"
            example_apply example_clock "''fix-1''"] h1 h2 h3
    by blast
qed

section \<open>The confirmation check of \<open>applyFix\<close>\<close>

lemma restoreAndFail_error:
  "fst (restoreAndFail fixId bp msg now fl oc fs0 w) = Inr r \<Longrightarrow> r_error r = Some msg"
  by (auto simp: restoreAndFail_def failure_result_def split: sum.splits if_splits)

lemma writeFix_error:
  assumes "fst (writeFix fixId backup validate clk fl oc nc w) = Inr r"
  shows "r_error r \<noteq> Some ''Fix must be confirmed before applying''"
proof -
  obtain bp fs1 where
    b: "createBackup backup fl oc (nowMs clk) (fsys w) = (bp, fs1)"
    by (cases "createBackup backup fl oc (nowMs clk) (fsys w)")
  show ?thesis
  proof (cases "writeFileSync fs1 fl nc")
    case (Inl msg)
    with assms have "r_error r = Some (''Failed to write file: '' @ msg)"
      by (simp add: writeFix_def b restoreAndFail_error)
    then show ?thesis by simp
  next
    case (Inr fs2)
    show ?thesis
    proof (cases "if validate then validateSyntax fl nc else None")
      case (Some err)
      with assms have "r_error r = Some (''Syntax validation failed: '' @ err)"
        by (simp add: writeFix_def b Inr restoreAndFail_error)
      then show ?thesis by simp
    next
      case None
      with assms show ?thesis
        by (auto simp add: writeFix_def Let_def b Inr split: prod.splits)
    qed
  qed
qed

text \<open>
  Claim C1, as amended. A stored fix whose status is not \<open>confirmed\<close> and that has no
  confirmation record (it never went through \<open>confirmFix\<close>) is refused by \<open>applyFix\<close>
  with the error \<open>Fix must be confirmed before applying\<close>, and neither the files nor the
  store change. A fix whose confirmation record has the action \<open>modify\<close> is not stopped by
  this check, whatever its status: \<open>applyFix\<close> never answers it with that error.
\<close>

theorem unconfirmed_fix_refused:
  assumes "getFixById (store w) (ap_fixId params) = Some storedFix"
  shows "(f_status (sf_fix storedFix) \<noteq> Confirmed \<and> sf_confirmation storedFix = None \<longrightarrow>
            applyFix params clk w =
              (Inr (failure_result (ap_fixId params) None
                      ''Fix must be confirmed before applying'' (nowIso clk)), w)) \<and>
         ((\<exists>conf. sf_confirmation storedFix = Some conf \<and> c_action conf = Modify) \<longrightarrow>
            (\<forall>r. fst (applyFix params clk w) = Inr r \<longrightarrow>
                   r_error r \<noteq> Some ''Fix must be confirmed before applying''))"
proof (intro conjI impI allI)
  assume "f_status (sf_fix storedFix) \<noteq> Confirmed \<and> sf_confirmation storedFix = None"
  then show "applyFix params clk w =
      (Inr (failure_result (ap_fixId params) None
              ''Fix must be confirmed before applying'' (nowIso clk)), w)"
    using assms by (simp add: applyFix_def Let_def)
next
  fix r
  assume m: "\<exists>conf. sf_confirmation storedFix = Some conf \<and> c_action conf = Modify"
    and r: "fst (applyFix params clk w) = Inr r"
  from m r assms show "r_error r \<noteq> Some ''Fix must be confirmed before applying''"
    unfolding applyFix_def Let_def
    by (auto simp: failure_result_def split: sum.splits if_splits dest: writeFix_error)
qed

theorem unconfirmed_fix_refused_witness:
  "applyFix example_apply example_clock example_world =
     (Inr (failure_result ''fix-1'' None ''Fix must be confirmed before applying''
             ''2024-01-02T00:00:00.000Z''), example_world) \<and>
   map_sum id r_error (fst (applyFix example_apply example_clock example_modified_world))
     \<noteq> Inr (Some ''Fix must be confirmed before applying'')"
proof -
  obtain sf0 where sf0: "getFixById (store example_world) (ap_fixId example_apply) = Some sf0"
      "f_status (sf_fix sf0) \<noteq> Confirmed \<and> sf_confirmation sf0 = None"
    by (simp add: store_eval)
  obtain sf1 where sf1:
      "getFixById (store example_modified_world) (ap_fixId example_apply) = Some sf1"
      "\<exists>conf. sf_confirmation sf1 = Some conf \<and> c_action conf = Modify"
    by (simp add: store_eval)
  have a: "applyFix example_apply example_clock example_world =
     (Inr (failure_result ''fix-1'' None ''Fix must be confirmed before applying''
             ''2024-01-02T00:00:00.000Z''), example_world)"
    using unconfirmed_fix_refused [OF sf0(1), of example_clock] sf0(2)
    by (simp add: example_apply_def example_clock_def)
  have b: "\<forall>r. fst (applyFix example_apply example_clock example_modified_world) = Inr r \<longrightarrow>
                r_error r \<noteq> Some ''Fix must be confirmed before applying''"
    using unconfirmed_fix_refused [OF sf1(1), of example_clock] sf1(2) by blast
  have "map_sum id r_error (fst (applyFix example_apply example_clock example_modified_world))
          \<noteq> Inr (Some ''Fix must be confirmed before applying'')"
    using b by (cases "fst (applyFix example_apply example_clock example_modified_world)") auto
  with a show ?thesis by blast
qed

text \<open>
  Claim C1 as stated fails: after \<open>confirmFix\<close> with the action \<open>modify\<close> the stored fix
  has the status \<open>rejected\<close>, not \<open>confirmed\<close>, and \<open>applyFix\<close> on it succeeds and rewrites
  the file.
\<close>

theorem modified_fix_applied_counterexample:
  "map_option (f_status \<circ> sf_fix) (getFixById (store example_modified_world) ''fix-1'')
     = Some Rejected \<and>
   files (fsys example_modified_world) ''src/App.tsx''
     = Some ''init();\<newline>foo();\<newline>done();'' \<and>
   map_sum id r_success (fst (applyFix example_apply example_clock example_modified_world))
     = Inr True \<and>
   files (fsys (snd (applyFix example_apply example_clock example_modified_world))) ''src/App.tsx''
     = Some ''init();\<newline>custom();\<newline>done();''"
  by (simp add: store_eval apply_eval path_eval)

section \<open>What \<open>applyFix\<close> does once the confirmation check is passed\<close>

lemma find_update_first:
  "(\<And>x. P x \<Longrightarrow> P (g x)) \<Longrightarrow> find P (update_first P g xs) = map_option g (find P xs)"
  by (induction xs) auto

lemma getFixById_updateFixApplication:
  assumes "getFixById xs fixId = Some sf"
  shows "getFixById (snd (updateFixApplication fixId app now xs)) fixId =
     Some (sf\<lparr>sf_application := Some app,
              sf_fix := (sf_fix sf)\<lparr>f_status := (if a_success app then Applied else Failed),
                                     f_appliedAt := Some (a_appliedAt app)\<rparr>,
              sf_updatedAt := now\<rparr>)"
  using assms unfolding getFixById_def updateFixApplication_def
  by (simp add: find_update_first)

lemma getFixById_updateFixConfirmation:
  assumes "getFixById xs fixId = Some sf"
  shows "getFixById (snd (updateFixConfirmation fixId conf now xs)) fixId =
     Some (sf\<lparr>sf_confirmation := Some conf,
              sf_fix := (sf_fix sf)\<lparr>f_status := (if c_action conf = Approve then Confirmed else Rejected),
                                     f_confirmedAt := Some (c_confirmedAt conf)\<rparr>,
              sf_updatedAt := now\<rparr>)"
  using assms unfolding getFixById_def updateFixConfirmation_def
  by (simp add: find_update_first)

lemma applyFix_passes:
  assumes "getFixById (store w) (ap_fixId params) = Some sf"
    and "f_status (sf_fix sf) = Confirmed \<or> sf_confirmation sf \<noteq> None"
    and "files (fsys w) (f_file (sf_fix sf)) = Some oc"
    and "\<not> with_default False (ap_dryRun params)"
  shows "applyFix params clk w =
     writeFix (ap_fixId params) (with_default True (ap_backup params))
       (with_default True (ap_validate params)) clk (f_file (sf_fix sf)) oc
       (patchContent (sf_fix sf) (codeToApply sf) oc) w"
  using assms by (auto simp: applyFix_def Let_def readFileSync_def)

lemma applyFix_dry_run:
  assumes "getFixById (store w) (ap_fixId params) = Some sf"
    and "f_status (sf_fix sf) = Confirmed \<or> sf_confirmation sf \<noteq> None"
    and "files (fsys w) (f_file (sf_fix sf)) = Some oc"
    and "with_default False (ap_dryRun params)"
  shows "applyFix params clk w =
     (Inr \<lparr>r_success = True,
           r_application = \<lparr>a_fixId = ap_fixId params, a_success = True, a_backupPath = None,
                            a_error = None, a_appliedAt = nowIso clk\<rparr>,
           r_backupPath = None, r_error = None,
           r_diff = Some (generateUnifiedDiff oc (patchContent (sf_fix sf) (codeToApply sf) oc)
                            (f_file (sf_fix sf)))\<rparr>, w)"
  using assms by (auto simp: applyFix_def Let_def readFileSync_def)

text \<open>A success outside a dry run comes from \<open>writeFix\<close>.\<close>

lemma applyFix_success_inv:
  assumes "getFixById (store w) (ap_fixId params) = Some sf"
    and "applyFix params clk w = (Inr r, w')" and "r_success r"
    and "\<not> with_default False (ap_dryRun params)"
  shows "\<exists>oc. files (fsys w) (f_file (sf_fix sf)) = Some oc \<and>
     writeFix (ap_fixId params) (with_default True (ap_backup params))
       (with_default True (ap_validate params)) clk (f_file (sf_fix sf)) oc
       (patchContent (sf_fix sf) (codeToApply sf) oc) w = (Inr r, w')"
  using assms
  by (auto simp: applyFix_def Let_def readFileSync_def failure_result_def split: if_splits option.splits)

lemma writeFix_success_inv:
  assumes "writeFix fixId backup validate clk fl oc nc w = (Inr r, w')" and "r_success r"
  shows "write_error (fsys w) fl = None \<and>
     (validate \<longrightarrow> validateSyntax fl nc = None) \<and>
     r_backupPath r = fst (createBackup backup fl oc (nowMs clk) (fsys w)) \<and>
     store w' = snd (updateFixApplication fixId
        \<lparr>a_fixId = fixId, a_success = True,
         a_backupPath = fst (createBackup backup fl oc (nowMs clk) (fsys w)),
         a_error = None, a_appliedAt = nowIso clk\<rparr> (nowIso clk) (store w)) \<and>
     write_error (fsys w') = write_error (fsys w) \<and>
     files (fsys w') = (files (snd (createBackup backup fl oc (nowMs clk) (fsys w))))(fl \<mapsto> nc)"
proof -
  obtain bp fs1 where b: "createBackup backup fl oc (nowMs clk) (fsys w) = (bp, fs1)"
    by (cases "createBackup backup fl oc (nowMs clk) (fsys w)")
  have we: "write_error fs1 = write_error (fsys w)"
    using createBackup_write_error [of backup fl oc "nowMs clk" "fsys w"] b by simp
  show ?thesis
  proof (cases "writeFileSync fs1 fl nc")
    case (Inl msg)
    then have "fst (writeFix fixId backup validate clk fl oc nc w) =
        fst (restoreAndFail fixId bp (''Failed to write file: '' @ msg) (nowIso clk) fl oc fs1 w)"
      by (simp add: writeFix_def b)
    with assms restoreAndFail_not_success show ?thesis by fastforce
  next
    case (Inr fs2)
    then have fs2: "write_error fs1 fl = None" "fs2 = fs1\<lparr>files := (files fs1)(fl \<mapsto> nc),
                                         journal := journal fs1 @ [FileWritten fl nc]\<rparr>"
      by (auto simp: writeFileSync_def split: option.splits)
    show ?thesis
    proof (cases "if validate then validateSyntax fl nc else None")
      case (Some err)
      then have "fst (writeFix fixId backup validate clk fl oc nc w) =
          fst (restoreAndFail fixId bp (''Syntax validation failed: '' @ err) (nowIso clk) fl oc fs2 w)"
        by (simp add: writeFix_def b Inr)
      with assms restoreAndFail_not_success show ?thesis by fastforce
    next
      case None
      with assms show ?thesis using fs2 we
        by (auto simp add: writeFix_def Let_def b Inr split: prod.splits if_splits)
    qed
  qed
qed




section \<open>Apply, then roll back\<close>

text \<open>
  Claim C3. When \<open>applyFix\<close> on a stored fix succeeds outside a dry run, with the backup
  enabled and the backup directory and file writable (so that the backup is created), a
  following \<open>rollbackFix\<close> on the same id succeeds and the target file then holds exactly
  the text it held before the apply. This holds for every fix that \<open>applyFix\<close> accepts, the
  confirmed ones among them.
\<close>

theorem apply_then_rollback_restores:
  assumes found: "getFixById (store w) (ap_fixId params) = Some sf"
    and applied: "applyFix params clk w = (Inr r, w')" "r_success r"
    and real: "\<not> with_default False (ap_dryRun params)"
    and backup: "with_default True (ap_backup params)"
      "write_error (fsys w) (backupDirOf (f_file (sf_fix sf))) = None"
      "write_error (fsys w) (backupPathOf (f_file (sf_fix sf)) (nowMs clk)) = None"
  shows "files (fsys w) (f_file (sf_fix sf)) \<noteq> None \<and>
         fst (rollbackFix (ap_fixId params) w') =
           (True, ''Successfully rolled back '' @ f_file (sf_fix sf)) \<and>
         files (fsys (snd (rollbackFix (ap_fixId params) w'))) (f_file (sf_fix sf)) =
           files (fsys w) (f_file (sf_fix sf))"
proof -
  let ?fl = "f_file (sf_fix sf)"
  let ?bp = "backupPathOf ?fl (nowMs clk)"
  from applyFix_success_inv [OF found applied real]
  obtain oc where oc: "files (fsys w) ?fl = Some oc"
    and wf: "writeFix (ap_fixId params) (with_default True (ap_backup params))
       (with_default True (ap_validate params)) clk ?fl oc
       (patchContent (sf_fix sf) (codeToApply sf) oc) w = (Inr r, w')"
    by blast
  let ?nc = "patchContent (sf_fix sf) (codeToApply sf) oc"
  have cb: "fst (createBackup True ?fl oc (nowMs clk) (fsys w)) = Some ?bp"
       "files (snd (createBackup True ?fl oc (nowMs clk) (fsys w))) = (files (fsys w))(?bp \<mapsto> oc)"
    using createBackup_ok [OF backup(2,3)] by auto
  let ?app = "\<lparr>a_fixId = ap_fixId params, a_success = True, a_backupPath = Some ?bp,
                a_error = None, a_appliedAt = nowIso clk\<rparr>"
  from writeFix_success_inv [OF wf applied(2)] backup(1) cb
  have we: "write_error (fsys w') ?fl = None"
    and st: "store w' = snd (updateFixApplication (ap_fixId params) ?app (nowIso clk) (store w))"
    and fl: "files (fsys w') = ((files (fsys w))(?bp \<mapsto> oc))(?fl \<mapsto> ?nc)"
    by auto
  have g: "getFixById (store w') (ap_fixId params) =
     Some (sf\<lparr>sf_application := Some ?app,
              sf_fix := (sf_fix sf)\<lparr>f_status := Applied, f_appliedAt := Some (nowIso clk)\<rparr>,
              sf_updatedAt := nowIso clk\<rparr>)"
    using getFixById_updateFixApplication [OF found, of ?app "nowIso clk"] st by simp
  have ne: "?bp \<noteq> ?fl" "?bp \<noteq> []"
    using backupPathOf_differs backupPathOf_nonempty by auto
  have rd: "files (fsys w') ?bp = Some oc" using fl ne by simp
  show ?thesis
    using oc g ne rd we
    by (simp add: rollbackFix_def readFileSync_def writeFileSync_def fl)
qed

theorem apply_then_rollback_restores_witness:
  "files (fsys (snd (applyFix example_apply example_clock example_approved_world))) ''src/App.tsx''
     = Some ''init();\<newline>bar();\<newline>done();'' \<and>
   files (fsys (snd (rollbackFix ''fix-1''
                  (snd (applyFix example_apply example_clock example_approved_world)))))
      ''src/App.tsx''
     = Some ''init();\<newline>foo();\<newline>done();''"
proof -
  obtain sf where sf:
      "getFixById (store example_approved_world) (ap_fixId example_apply) = Some sf"
      "f_file (sf_fix sf) = ''src/App.tsx''"
    by (simp add: store_eval)
  obtain r w' where ap: "applyFix example_apply example_clock example_approved_world = (Inr r, w')"
      "r_success r"
      "files (fsys w') ''src/App.tsx'' = Some ''init();\<newline>bar();\<newline>done();''"
    by (simp add: store_eval apply_eval path_eval)
  have env: "\<not> with_default False (ap_dryRun example_apply)"
      "with_default True (ap_backup example_apply)"
      "write_error (fsys example_approved_world) (backupDirOf (f_file (sf_fix sf))) = None"
      "write_error (fsys example_approved_world)
         (backupPathOf (f_file (sf_fix sf)) (nowMs example_clock)) = None"
    by (simp_all add: store_eval with_default_def)
  have before: "files (fsys example_approved_world) ''src/App.tsx''
                  = Some ''init();\<newline>foo();\<newline>done();''"
    by (simp add: store_eval newline_def)
  from apply_then_rollback_restores [OF sf(1) ap(1,2) env]
  have "files (fsys (snd (rollbackFix (ap_fixId example_apply) w'))) (f_file (sf_fix sf)) =
          files (fsys example_approved_world) (f_file (sf_fix sf))"
    by blast
  then show ?thesis
    using ap(1,3) before sf(2) by (simp add: example_apply_def)
qed

section \<open>The backup and the write\<close>

text \<open>What a function has added to the journal: the entries of the later state that the
  earlier one does not have.\<close>

definition effects_of :: "filesystem \<Rightarrow> filesystem \<Rightarrow> fs_event list" where
  "effects_of earlier later = drop (length (journal earlier)) (journal later)"


lemma effects_of_append: "journal fs1 = journal fs0 @ evs \<Longrightarrow> effects_of fs0 fs1 = evs"
  by (simp add: effects_of_def)











section \<open>A failed syntax check\<close>

lemma writeFix_invalid:
  assumes "write_error (fsys w) fl = None" and "validate" and "validateSyntax fl nc = Some err"
  shows "writeFix fixId backup validate clk fl oc nc w =
     (let (bp, fs1) = createBackup backup fl oc (nowMs clk) (fsys w);
          fs2 = fs1\<lparr>files := (files fs1)(fl \<mapsto> nc),
                    journal := journal fs1 @ [FileWritten fl nc]\<rparr>
      in (Inr (failure_result fixId bp (''Syntax validation failed: '' @ err) (nowIso clk)),
          w\<lparr>fsys := (if backup_available fs2 bp
                       then fs2\<lparr>files := (files fs2)(fl \<mapsto> oc),
                                journal := journal fs2 @ [FileWritten fl oc]\<rparr>
                       else fs2)\<rparr>))"
proof -
  obtain bp fs1 where b: "createBackup backup fl oc (nowMs clk) (fsys w) = (bp, fs1)"
    by (cases "createBackup backup fl oc (nowMs clk) (fsys w)")
  have we: "write_error fs1 = write_error (fsys w)"
    using createBackup_write_error [of backup fl oc "nowMs clk" "fsys w"] b by simp
  show ?thesis
    using assms we
    by (simp add: writeFix_def Let_def b writeFileSync_def restoreAndFail_def)
qed

text \<open>
  Claim C5, as amended. When the new content has been written and fails the syntax check,
  \<open>applyFix\<close> reports the failure \<open>Syntax validation failed\<close> and leaves the store as it
  was. When the backup is enabled and was created, the file gets back the text it had before;
  with \<open>backup: false\<close> nothing is restored and the file keeps the content that failed the
  check.
\<close>

theorem failed_validation_restores_when_backed_up:
  assumes found: "getFixById (store w) (ap_fixId params) = Some sf"
    and passes: "f_status (sf_fix sf) = Confirmed \<or> sf_confirmation sf \<noteq> None"
    and readable: "files (fsys w) (f_file (sf_fix sf)) = Some oc"
    and real: "\<not> with_default False (ap_dryRun params)"
    and writable: "write_error (fsys w) (f_file (sf_fix sf)) = None"
    and validate: "with_default True (ap_validate params)"
    and invalid: "validateSyntax (f_file (sf_fix sf))
                    (patchContent (sf_fix sf) (codeToApply sf) oc) = Some err"
  shows "(\<exists>r. fst (applyFix params clk w) = Inr r \<and> \<not> r_success r \<and>
              r_error r = Some (''Syntax validation failed: '' @ err)) \<and>
         store (snd (applyFix params clk w)) = store w \<and>
         (with_default True (ap_backup params) \<and>
          write_error (fsys w) (backupDirOf (f_file (sf_fix sf))) = None \<and>
          write_error (fsys w) (backupPathOf (f_file (sf_fix sf)) (nowMs clk)) = None \<longrightarrow>
            files (fsys (snd (applyFix params clk w))) (f_file (sf_fix sf)) = Some oc) \<and>
         (\<not> with_default True (ap_backup params) \<longrightarrow>
            files (fsys (snd (applyFix params clk w))) (f_file (sf_fix sf)) =
              Some (patchContent (sf_fix sf) (codeToApply sf) oc))"
proof -
  let ?fl = "f_file (sf_fix sf)"
  let ?nc = "patchContent (sf_fix sf) (codeToApply sf) oc"
  let ?bp = "backupPathOf ?fl (nowMs clk)"
  let ?b = "with_default True (ap_backup params)"
  let ?cb = "createBackup ?b ?fl oc (nowMs clk) (fsys w)"
  let ?fs2 = "(snd ?cb)\<lparr>files := (files (snd ?cb))(?fl \<mapsto> ?nc),
                         journal := journal (snd ?cb) @ [FileWritten ?fl ?nc]\<rparr>"
  have ap: "applyFix params clk w =
      (Inr (failure_result (ap_fixId params) (fst ?cb)
              (''Syntax validation failed: '' @ err) (nowIso clk)),
       w\<lparr>fsys := (if backup_available ?fs2 (fst ?cb)
                    then ?fs2\<lparr>files := (files ?fs2)(?fl \<mapsto> oc),
                              journal := journal ?fs2 @ [FileWritten ?fl oc]\<rparr>
                    else ?fs2)\<rparr>)"
    using applyFix_passes [OF found passes readable real, of clk]
      writeFix_invalid [OF writable validate invalid, of "ap_fixId params" ?b clk oc]
    by (simp add: Let_def split: prod.splits)
  have 1: "\<exists>r. fst (applyFix params clk w) = Inr r \<and> \<not> r_success r \<and>
              r_error r = Some (''Syntax validation failed: '' @ err)"
    by (simp add: ap failure_result_def)
  have 2: "store (snd (applyFix params clk w)) = store w"
    by (simp add: ap)
  have 3: "files (fsys (snd (applyFix params clk w))) ?fl = Some oc"
    if "?b" "write_error (fsys w) (backupDirOf ?fl) = None" "write_error (fsys w) ?bp = None"
  proof -
    have cb: "fst (createBackup True ?fl oc (nowMs clk) (fsys w)) = Some ?bp"
       "files (snd (createBackup True ?fl oc (nowMs clk) (fsys w))) = (files (fsys w))(?bp \<mapsto> oc)"
      using createBackup_ok [OF that(2,3)] by auto
    have ne: "?bp \<noteq> ?fl" "?bp \<noteq> []"
      using backupPathOf_differs backupPathOf_nonempty by auto
    show ?thesis
      using that(1) cb ne by (simp add: ap backup_available_def existsSync_def)
  qed
  have 4: "files (fsys (snd (applyFix params clk w))) ?fl = Some ?nc" if "\<not> ?b"
    using that by (simp add: ap createBackup_disabled backup_available_def)
  from 1 2 3 4 show ?thesis by blast
qed

theorem failed_validation_restores_when_backed_up_witness:
  "files (fsys (snd (applyFix example_apply example_clock example_unbalanced_world)))
      ''src/App.tsx'' = Some ''init();\<newline>foo();\<newline>done();'' \<and>
   files (fsys (snd (applyFix example_apply_no_backup example_clock example_unbalanced_world)))
      ''src/App.tsx'' = Some ''init();\<newline>if (ready) {\<newline>done();''"
proof -
  let ?oc = "''init();\<newline>foo();\<newline>done();''"
  obtain sf where sf:
      "getFixById (store example_unbalanced_world) ''fix-1'' = Some sf"
      "f_status (sf_fix sf) = Confirmed \<or> sf_confirmation sf \<noteq> None"
      "f_file (sf_fix sf) = ''src/App.tsx''"
      "patchContent (sf_fix sf) (codeToApply sf) ?oc = ''init();\<newline>if (ready) {\<newline>done();''"
    by (simp add: store_eval apply_eval)
  have rd: "files (fsys example_unbalanced_world) (f_file (sf_fix sf)) = Some ?oc"
    by (simp add: sf(3) store_eval newline_def)
  have we: "write_error (fsys example_unbalanced_world) p = None" for p
    by (simp add: store_eval)
  have inv: "validateSyntax (f_file (sf_fix sf)) (patchContent (sf_fix sf) (codeToApply sf) ?oc)
               = Some ''Unbalanced braces''"
    by (simp add: sf(3,4) validateSyntax_def count_char_def path_eval)
  have a: "files (fsys (snd (applyFix example_apply example_clock example_unbalanced_world)))
             (f_file (sf_fix sf)) = Some ?oc"
    using failed_validation_restores_when_backed_up
            [of example_unbalanced_world example_apply sf ?oc "''Unbalanced braces''" example_clock]
          sf(1,2) rd we inv
    by (simp add: example_apply_def with_default_def)
  have b: "files (fsys (snd (applyFix example_apply_no_backup example_clock
                               example_unbalanced_world)))
             (f_file (sf_fix sf)) = Some (patchContent (sf_fix sf) (codeToApply sf) ?oc)"
    using failed_validation_restores_when_backed_up
            [of example_unbalanced_world example_apply_no_backup sf ?oc "''Unbalanced braces''"
                example_clock]
          sf(1,2) rd we inv
    by (simp add: example_apply_no_backup_def with_default_def)
  from a b show ?thesis by (simp add: sf(3,4))
qed

text \<open>
  Claim C5 as stated fails: with \<open>backup: false\<close> the check fails, \<open>applyFix\<close> reports
  the failure, and the file is left with the unbalanced content.
\<close>

theorem invalid_content_left_counterexample:
  "map_sum id r_error
     (fst (applyFix example_apply_no_backup example_clock example_unbalanced_world))
     = Inr (Some ''Syntax validation failed: Unbalanced braces'') \<and>
   files (fsys example_unbalanced_world) ''src/App.tsx''
     = Some ''init();\<newline>foo();\<newline>done();'' \<and>
   files (fsys (snd (applyFix example_apply_no_backup example_clock example_unbalanced_world)))
      ''src/App.tsx'' = Some ''init();\<newline>if (ready) {\<newline>done();''"
  by (simp add: store_eval apply_eval path_eval)

section \<open>A file that has drifted\<close>

lemma findStartLine_none:
  assumes "\<forall>i<length ls. \<not> window_matches ls ocl i"
  shows "findStartLine ls ocl = - 1"
proof -
  have "find (window_matches ls ocl) [0..<length ls] = None"
    using assms by (simp add: find_None_iff)
  then show ?thesis by (simp add: findStartLine_def)
qed

lemma writeFix_valid_file:
  assumes "write_error (fsys w) fl = None" and "validate \<longrightarrow> validateSyntax fl nc = None"
  shows "(\<exists>r. fst (writeFix fixId backup validate clk fl oc nc w) = Inr r \<and> r_success r) \<and>
         files (fsys (snd (writeFix fixId backup validate clk fl oc nc w))) fl = Some nc"
proof -
  obtain bp fs1 where b: "createBackup backup fl oc (nowMs clk) (fsys w) = (bp, fs1)"
    by (cases "createBackup backup fl oc (nowMs clk) (fsys w)")
  have we: "write_error fs1 = write_error (fsys w)"
    using createBackup_write_error [of backup fl oc "nowMs clk" "fsys w"] b by simp
  show ?thesis
    using assms we
    by (auto simp add: writeFix_def Let_def b writeFileSync_def split: prod.splits)
qed

text \<open>The comparison of the search is between trimmed lines, and \<open>trim\<close> strips the
  no-break space like any other white space: a line indented by it still matches.\<close>

lemma trim_no_break_space: "trim (CHR 0xA0 # ''foo();'' @ [CHR 0xA0, CHR 0x09]) = ''foo();''"
  by (simp add: trim_def is_space_def)

lemma findStartLine_no_break_space:
  "findStartLine [''init();'', CHR 0xA0 # ''foo();'', ''done();'', ''end();''] [''foo();''] = 1"
  by (simp add: findStartLine_def window_matches_def trim_def is_space_def upt_rec)

text \<open>
  Claim C6, as amended. When no window of the file's lines matches \<open>originalCode\<close>,
  \<open>applyFix\<close> takes the line index \<open>max(0, line - 2)\<close> as the place of the fix and
  replaces the lines from there, as many as \<open>originalCode\<close> has and whatever they hold,
  by the code to apply; the lines before and after are kept, and the commented block is not
  produced. A dry run returns the diff of this new content; otherwise, when the file can be
  written and the new content passes the check, \<open>applyFix\<close> succeeds and the file holds it.
\<close>

theorem drifted_fix_spliced_at_anchor:
  assumes found: "getFixById (store w) (ap_fixId params) = Some sf"
    and passes: "f_status (sf_fix sf) = Confirmed \<or> sf_confirmation sf \<noteq> None"
    and readable: "files (fsys w) (f_file (sf_fix sf)) = Some oc"
    and drifted: "\<forall>i<length (split_lines oc).
                    \<not> window_matches (split_lines oc) (split_lines (f_originalCode (sf_fix sf))) i"
  shows "(let anchor = nat (max 0 (f_line (sf_fix sf) - 2));
              newContent =
                join_lines (take anchor (split_lines oc) @ split_lines (codeToApply sf)
                  @ drop (anchor + length (split_lines (f_originalCode (sf_fix sf)))) (split_lines oc))
          in (with_default False (ap_dryRun params) \<longrightarrow>
                applyFix params clk w =
                  (Inr \<lparr>r_success = True,
                        r_application = \<lparr>a_fixId = ap_fixId params, a_success = True,
                          a_backupPath = None, a_error = None, a_appliedAt = nowIso clk\<rparr>,
                        r_backupPath = None, r_error = None,
                        r_diff = Some (generateUnifiedDiff oc newContent (f_file (sf_fix sf)))\<rparr>, w)) \<and>
             (\<not> with_default False (ap_dryRun params) \<and>
              write_error (fsys w) (f_file (sf_fix sf)) = None \<and>
              (with_default True (ap_validate params) \<longrightarrow>
                 validateSyntax (f_file (sf_fix sf)) newContent = None) \<longrightarrow>
                (\<exists>r. fst (applyFix params clk w) = Inr r \<and> r_success r) \<and>
                files (fsys (snd (applyFix params clk w))) (f_file (sf_fix sf)) = Some newContent))"
proof -
  let ?a = "nat (max 0 (f_line (sf_fix sf) - 2))"
  let ?nc = "join_lines (take ?a (split_lines oc) @ split_lines (codeToApply sf)
                  @ drop (?a + length (split_lines (f_originalCode (sf_fix sf)))) (split_lines oc))"
  have pc: "patchContent (sf_fix sf) (codeToApply sf) oc = ?nc"
    using findStartLine_none [OF drifted] by (simp add: patchContent_def Let_def)
  have dry: "applyFix params clk w =
                  (Inr \<lparr>r_success = True,
                        r_application = \<lparr>a_fixId = ap_fixId params, a_success = True,
                          a_backupPath = None, a_error = None, a_appliedAt = nowIso clk\<rparr>,
                        r_backupPath = None, r_error = None,
                        r_diff = Some (generateUnifiedDiff oc ?nc (f_file (sf_fix sf)))\<rparr>, w)"
    if "with_default False (ap_dryRun params)"
    using applyFix_dry_run [OF found passes readable that, of clk] pc by simp
  have wet: "(\<exists>r. fst (applyFix params clk w) = Inr r \<and> r_success r) \<and>
                files (fsys (snd (applyFix params clk w))) (f_file (sf_fix sf)) = Some ?nc"
    if "\<not> with_default False (ap_dryRun params)"
       "write_error (fsys w) (f_file (sf_fix sf)) = None"
       "with_default True (ap_validate params) \<longrightarrow> validateSyntax (f_file (sf_fix sf)) ?nc = None"
    using applyFix_passes [OF found passes readable that(1), of clk]
      writeFix_valid_file [OF that(2), of "with_default True (ap_validate params)" ?nc] that(3) pc
    by simp
  show ?thesis unfolding Let_def using dry wet by blast
qed

theorem drifted_fix_spliced_at_anchor_witness:
  "files (fsys (snd (applyFix example_apply example_clock example_drifted_world))) ''src/App.tsx''
     = Some ''bar();\<newline>beta();\<newline>gamma();''"
proof -
  let ?oc = "''alpha();\<newline>beta();\<newline>gamma();''"
  obtain sf where sf:
      "getFixById (store example_drifted_world) (ap_fixId example_apply) = Some sf"
      "f_status (sf_fix sf) = Confirmed \<or> sf_confirmation sf \<noteq> None"
      "f_file (sf_fix sf) = ''src/App.tsx''"
      "f_line (sf_fix sf) = 2" "f_originalCode (sf_fix sf) = ''foo();''"
      "codeToApply sf = ''bar();''"
    by (simp add: store_eval codeToApply_def)
  have rd: "files (fsys example_drifted_world) (f_file (sf_fix sf)) = Some ?oc"
    by (simp add: sf(3) store_eval)
  have "find (window_matches (split_lines ?oc) (split_lines (f_originalCode (sf_fix sf))))
          [0..<length (split_lines ?oc)] = None"
    by (simp add: sf(5) split_lines_def newline_def window_matches_def trim_def is_space_def
        upt_rec)
  then have drift: "\<forall>i<length (split_lines ?oc).
      \<not> window_matches (split_lines ?oc) (split_lines (f_originalCode (sf_fix sf))) i"
    by (simp add: find_None_iff)
  have env: "\<not> with_default False (ap_dryRun example_apply)"
      "write_error (fsys example_drifted_world) (f_file (sf_fix sf)) = None"
    by (simp_all add: store_eval with_default_def)
  have nc: "join_lines (take (nat (max 0 (f_line (sf_fix sf) - 2))) (split_lines ?oc)
              @ split_lines (codeToApply sf)
              @ drop (nat (max 0 (f_line (sf_fix sf) - 2))
                      + length (split_lines (f_originalCode (sf_fix sf)))) (split_lines ?oc))
            = ''bar();\<newline>beta();\<newline>gamma();''"
    by (simp add: sf(4,5,6) split_lines_def newline_def join_lines_def)
  have ok: "validateSyntax (f_file (sf_fix sf)) ''bar();\<newline>beta();\<newline>gamma();'' = None"
    by (simp add: sf(3) validateSyntax_def count_char_def path_eval)
  from drifted_fix_spliced_at_anchor [OF sf(1,2) rd drift, of example_clock] env ok
  show ?thesis
    by (simp add: Let_def nc sf(3))
qed

text \<open>
  Claim C6 as stated fails. The file no longer holds the fix's \<open>originalCode\<close>
  (\<open>foo();\<close>); the fix was reported at line 2. \<open>applyFix\<close> succeeds and overwrites line 1,
  \<open>alpha();\<close>, which is neither the original code nor the reported line; nothing is
  appended as a comment.
\<close>

theorem unrelated_line_overwritten_counterexample:
  "files (fsys example_drifted_world) ''src/App.tsx''
     = Some ''alpha();\<newline>beta();\<newline>gamma();'' \<and>
   findStartLine (split_lines ''alpha();\<newline>beta();\<newline>gamma();'')
     (split_lines (f_originalCode example_fix)) = - 1 \<and>
   f_line example_fix = 2 \<and>
   map_sum id r_success (fst (applyFix example_apply example_clock example_drifted_world))
     = Inr True \<and>
   files (fsys (snd (applyFix example_apply example_clock example_drifted_world))) ''src/App.tsx''
     = Some ''bar();\<newline>beta();\<newline>gamma();''"
  by (simp add: store_eval apply_eval path_eval upt_rec)

section \<open>A fix confirmed with the action \<open>modify\<close>\<close>

lemma confirmFix_found:
  assumes "getFixById xs (cp_fixId cparams) = Some sf"
  shows "snd (confirmFix cparams now xs) =
     snd (updateFixConfirmation (cp_fixId cparams)
            \<lparr>c_fixId = cp_fixId cparams, c_action = cp_action cparams,
             c_modifiedCode = cp_modifiedCode cparams, c_reason = cp_reason cparams,
             c_confirmedAt = now\<rparr> now xs)"
  using assms by (simp add: confirmFix_def Let_def split: prod.splits)

text \<open>
  Claim C9, as amended. For every existing fix, \<open>confirmFix\<close> with the action \<open>modify\<close>
  stores the status \<open>rejected\<close>. \<open>applyFix\<close> nevertheless applies such a fix: when the
  file can be read and written and the result passes the check, it succeeds and the file
  holds the splice of the code to apply, which is the confirmation's \<open>modifiedCode\<close> when
  that is present and not the empty string, and the \<open>suggestedCode\<close> otherwise.
\<close>

theorem modify_rejected_yet_applied:
  assumes found: "getFixById xs (cp_fixId cparams) = Some sf"
    and modify: "cp_action cparams = Modify"
  shows "\<exists>sf'. getFixById (snd (confirmFix cparams now xs)) (cp_fixId cparams) = Some sf' \<and>
           f_status (sf_fix sf') = Rejected \<and>
           codeToApply sf' =
             (case cp_modifiedCode cparams of
                None \<Rightarrow> f_suggestedCode (sf_fix sf)
              | Some m \<Rightarrow> if m = [] then f_suggestedCode (sf_fix sf) else m) \<and>
           (\<forall>params clk fs0 oc.
              ap_fixId params = cp_fixId cparams \<and>
              files fs0 (f_file (sf_fix sf)) = Some oc \<and>
              \<not> with_default False (ap_dryRun params) \<and>
              write_error fs0 (f_file (sf_fix sf)) = None \<and>
              (with_default True (ap_validate params) \<longrightarrow>
                 validateSyntax (f_file (sf_fix sf))
                   (patchContent (sf_fix sf) (codeToApply sf') oc) = None)
              \<longrightarrow>
              (\<exists>r. fst (applyFix params clk \<lparr>store = snd (confirmFix cparams now xs), fsys = fs0\<rparr>)
                     = Inr r \<and> r_success r) \<and>
              files (fsys (snd (applyFix params clk
                                  \<lparr>store = snd (confirmFix cparams now xs), fsys = fs0\<rparr>)))
                (f_file (sf_fix sf))
                = Some (patchContent (sf_fix sf) (codeToApply sf') oc))"
proof -
  let ?conf = "\<lparr>c_fixId = cp_fixId cparams, c_action = cp_action cparams,
             c_modifiedCode = cp_modifiedCode cparams, c_reason = cp_reason cparams,
             c_confirmedAt = now\<rparr>"
  let ?sf' = "sf\<lparr>sf_confirmation := Some ?conf,
              sf_fix := (sf_fix sf)\<lparr>f_status := Rejected, f_confirmedAt := Some now\<rparr>,
              sf_updatedAt := now\<rparr>"
  let ?xs' = "snd (confirmFix cparams now xs)"
  have g: "getFixById ?xs' (cp_fixId cparams) = Some ?sf'"
    using getFixById_updateFixConfirmation [OF found, of ?conf now] modify
    by (simp add: confirmFix_found [OF found])
  have st: "f_status (sf_fix ?sf') = Rejected" by simp
  have code: "codeToApply ?sf' =
             (case cp_modifiedCode cparams of
                None \<Rightarrow> f_suggestedCode (sf_fix sf)
              | Some m \<Rightarrow> if m = [] then f_suggestedCode (sf_fix sf) else m)"
    using modify by (simp add: codeToApply_def split: option.splits)
  have pc: "\<And>fx s t c oc.
      patchContent (fx\<lparr>f_status := s, f_confirmedAt := t\<rparr>) c oc = patchContent fx c oc"
    by (simp add: patchContent_def Let_def)
  have app: "(\<exists>r. fst (applyFix params clk \<lparr>store = ?xs', fsys = fs0\<rparr>) = Inr r \<and> r_success r) \<and>
              files (fsys (snd (applyFix params clk \<lparr>store = ?xs', fsys = fs0\<rparr>))) (f_file (sf_fix sf))
                = Some (patchContent (sf_fix sf) (codeToApply ?sf') oc)"
    if h: "ap_fixId params = cp_fixId cparams \<and>
              files fs0 (f_file (sf_fix sf)) = Some oc \<and>
              \<not> with_default False (ap_dryRun params) \<and>
              write_error fs0 (f_file (sf_fix sf)) = None \<and>
              (with_default True (ap_validate params) \<longrightarrow>
                 validateSyntax (f_file (sf_fix sf))
                   (patchContent (sf_fix sf) (codeToApply ?sf') oc) = None)"
    for params clk fs0 oc
  proof -
    let ?w = "\<lparr>store = ?xs', fsys = fs0\<rparr>"
    have f: "getFixById (store ?w) (ap_fixId params) = Some ?sf'" using g h by simp
    have p: "f_status (sf_fix ?sf') = Confirmed \<or> sf_confirmation ?sf' \<noteq> None" by simp
    have rd: "files (fsys ?w) (f_file (sf_fix ?sf')) = Some oc" using h by simp
    have dr: "\<not> with_default False (ap_dryRun params)" using h by simp
    have we: "write_error (fsys ?w) (f_file (sf_fix ?sf')) = None" using h by simp
    show ?thesis
      using applyFix_passes [OF f p rd dr, of clk]
        writeFix_valid_file [OF we, of "with_default True (ap_validate params)"
           "patchContent (sf_fix sf) (codeToApply ?sf') oc" "ap_fixId params"
           "with_default True (ap_backup params)" clk oc] h
      by (simp add: pc)
  qed
  show ?thesis
    using g st code app by blast
qed

theorem modify_rejected_yet_applied_witness:
  "files (fsys (snd (applyFix example_apply example_clock example_modified_world))) ''src/App.tsx''
     = Some ''init();\<newline>custom();\<newline>done();''"
proof -
  let ?oc = "''init();\<newline>foo();\<newline>done();''"
  let ?now = "''2024-01-01T12:00:00.000Z''"
  obtain sf where sf: "getFixById (store example_world) (cp_fixId example_modify) = Some sf"
      "sf_fix sf = example_fix"
    by (simp add: store_eval)
  have m: "cp_action example_modify = Modify" by (simp add: example_modify_def)
  have w: "example_modified_world =
             \<lparr>store = snd (confirmFix example_modify ?now (store example_world)),
              fsys = example_files\<rparr>"
    by (simp add: example_modified_world_def example_world_def)
  from modify_rejected_yet_applied [OF sf(1) m, of ?now]
  obtain sf' where sf':
      "codeToApply sf' =
         (case cp_modifiedCode example_modify of
            None \<Rightarrow> f_suggestedCode (sf_fix sf)
          | Some m \<Rightarrow> if m = [] then f_suggestedCode (sf_fix sf) else m)"
      "\<forall>params clk fs0 oc.
              ap_fixId params = cp_fixId example_modify \<and>
              files fs0 (f_file (sf_fix sf)) = Some oc \<and>
              \<not> with_default False (ap_dryRun params) \<and>
              write_error fs0 (f_file (sf_fix sf)) = None \<and>
              (with_default True (ap_validate params) \<longrightarrow>
                 validateSyntax (f_file (sf_fix sf))
                   (patchContent (sf_fix sf) (codeToApply sf') oc) = None)
              \<longrightarrow>
              files (fsys (snd (applyFix params clk
                  \<lparr>store = snd (confirmFix example_modify ?now (store example_world)),
                   fsys = fs0\<rparr>)))
                (f_file (sf_fix sf))
                = Some (patchContent (sf_fix sf) (codeToApply sf') oc)"
    by blast
  have code: "codeToApply sf' = ''custom();''"
    using sf'(1) by (simp add: example_modify_def)
  have pc: "patchContent (sf_fix sf) (codeToApply sf') ?oc = ''init();\<newline>custom();\<newline>done();''"
    by (simp add: code sf(2) example_fix_def patchContent_def split_lines_def newline_def
        findStartLine_def window_matches_def trim_def is_space_def join_lines_def Let_def upt_rec)
  have ff: "f_file (sf_fix sf) = ''src/App.tsx''"
    by (simp add: sf(2) example_fix_def)
  have hyp: "ap_fixId example_apply = cp_fixId example_modify \<and>
              files example_files (f_file (sf_fix sf)) = Some ?oc \<and>
              \<not> with_default False (ap_dryRun example_apply) \<and>
              write_error example_files (f_file (sf_fix sf)) = None \<and>
              (with_default True (ap_validate example_apply) \<longrightarrow>
                 validateSyntax (f_file (sf_fix sf))
                   (patchContent (sf_fix sf) (codeToApply sf') ?oc) = None)"
    by (simp add: pc ff example_apply_def example_modify_def example_files_def with_default_def
        validateSyntax_def count_char_def path_eval newline_def)
  from sf'(2) hyp
  have "files (fsys (snd (applyFix example_apply example_clock
                  \<lparr>store = snd (confirmFix example_modify ?now (store example_world)),
                   fsys = example_files\<rparr>)))
                (f_file (sf_fix sf))
                = Some (patchContent (sf_fix sf) (codeToApply sf') ?oc)"
    by blast
  then show ?thesis
    by (simp add: w pc ff)
qed

text \<open>
  Claim C9 as stated fails: with the action \<open>modify\<close> and the empty string as
  \<open>modifiedCode\<close> (the line is to be emptied), the code that \<open>applyFix\<close> splices in is the
  \<open>suggestedCode\<close> \<open>bar();\<close>, not the \<open>modifiedCode\<close>.
\<close>

theorem empty_modified_code_ignored_counterexample:
  "cp_action example_modify_empty = Modify \<and>
   cp_modifiedCode example_modify_empty = Some [] \<and>
   map_option (f_status \<circ> sf_fix) (getFixById (store example_modified_empty_world) ''fix-1'')
     = Some Rejected \<and>
   map_option codeToApply (getFixById (store example_modified_empty_world) ''fix-1'')
     = Some ''bar();'' \<and>
   files (fsys (snd (applyFix example_apply example_clock example_modified_empty_world)))
      ''src/App.tsx'' = Some ''init();\<newline>bar();\<newline>done();''"
  by (simp add: store_eval apply_eval path_eval upt_rec)

section \<open>The unified diff rebuilds the modified text\<close>

text \<open>The applier's state after the lines pushed so far and the hunk still open, whose
  header, not yet written, will name the line \<open>hs + 1\<close>.\<close>

definition open_state :: "string list \<Rightarrow> int \<Rightarrow> string list \<Rightarrow> string list \<Rightarrow> nat \<times> string list" where
  "open_state orig hs hunk body =
     (let st = foldl (hunk_step orig) (0, []) body
      in if hunk = [] then st
         else foldl (hunk_step orig)
                (max (fst st) (nat hs), snd st @ take (nat hs - fst st) (drop (fst st) orig)) hunk)"

text \<open>The invariant of the \<open>while\<close> loop: applied to the original, what the loop has
  produced so far rebuilds the first \<open>j\<close> modified lines and has consumed the first
  \<open>i\<close> original lines.\<close>

definition loop_inv ::
  "string list \<Rightarrow> string list \<Rightarrow> nat \<Rightarrow> nat \<Rightarrow> int \<Rightarrow> string list \<Rightarrow> string list \<Rightarrow> bool" where
  "loop_inv ol ml i j hs hunk body =
     (i \<le> length ol \<and> j \<le> length ml \<and> (hunk = [] \<longrightarrow> hs = - 1) \<and> (hunk \<noteq> [] \<longrightarrow> 0 \<le> hs) \<and>
      fst (open_state ol hs hunk body) \<le> i \<and>
      snd (open_state ol hs hunk body)
        @ take (i - fst (open_state ol hs hunk body)) (drop (fst (open_state ol hs hunk body)) ol)
        = take j ml \<and>
      (hunk \<noteq> [] \<longrightarrow> fst (open_state ol hs hunk body) = i))"

lemma digit_cases: "d < 10 \<Longrightarrow> d \<in> {0,1,2,3,4,5,6,7,8,9::nat}"
  by auto

lemma digit_char_props:
  assumes "d < 10"
  shows "is_digit (digit_char d)" and "digit_val (digit_char d) = d"
  using digit_cases [OF assms] by (auto simp: digit_char_def is_digit_def digit_val_def)

lemma parse_nat_snoc: "parse_nat (s @ [c]) = parse_nat s * 10 + digit_val c"
  by (simp add: parse_nat_def)

lemma parse_show_nat: "parse_nat (show_nat n) = n"
proof (induction n rule: show_nat.induct)
  case (1 n)
  show ?case
  proof (cases "n < 10")
    case True
    then show ?thesis
      by (subst show_nat.simps) (simp add: parse_nat_def digit_char_props)
  next
    case False
    then have "parse_nat (show_nat n) = parse_nat (show_nat (n div 10)) * 10 + digit_val (digit_char (n mod 10))"
      by (subst show_nat.simps) (simp add: parse_nat_snoc)
    then show ?thesis using 1 False by (simp add: digit_char_props)
  qed
qed

lemma show_nat_digits: "\<forall>c\<in>set (show_nat n). is_digit c"
proof (induction n rule: show_nat.induct)
  case (1 n)
  show ?case
  proof (cases "n < 10")
    case True
    then show ?thesis by (subst show_nat.simps) (simp add: digit_char_props)
  next
    case False
    then show ?thesis using 1 by (subst show_nat.simps) (simp add: digit_char_props)
  qed
qed

lemma hunk_start_header:
  assumes "0 \<le> hs"
  shows "hunk_start (hunk_header hs hunk) = nat hs + 1"
    and "hunk_start (last_hunk_header hs) = nat hs + 1"
proof -
  have d: "takeWhile is_digit (show_nat n @ c # rest) = show_nat n" if "\<not> is_digit c" for n c rest
    using that show_nat_digits [of n] by (simp add: takeWhile_append2)
  have n: "show_int (hs + 1) = show_nat (nat hs + 1)"
    using assms by (simp add: show_int_def nat_add_distrib)
  show "hunk_start (hunk_header hs hunk) = nat hs + 1"
    by (simp add: hunk_start_def hunk_header_def n d [where c = "CHR '',''"] is_digit_def parse_show_nat)
  show "hunk_start (last_hunk_header hs) = nat hs + 1"
    by (simp add: hunk_start_def last_hunk_header_def n d [where c = "CHR '' ''"] is_digit_def parse_show_nat)
qed

lemma hunk_step_header:
  assumes "0 \<le> hs"
  shows "hunk_step orig (c, out) (hunk_header hs hunk) =
           (max c (nat hs), out @ take (nat hs - c) (drop c orig))"
    and "hunk_step orig (c, out) (last_hunk_header hs) =
           (max c (nat hs), out @ take (nat hs - c) (drop c orig))"
  using hunk_start_header [OF assms]
  by (simp_all add: Let_def) (simp_all add: hunk_header_def last_hunk_header_def)

lemma fold_minus_lines:
  "\<forall>l\<in>set ls. \<exists>t. l = CHR ''-'' # t \<Longrightarrow>
     foldl (hunk_step orig) (c, out) ls = (c + length ls, out)"
  by (induction ls arbitrary: c) auto

lemma fold_plus_lines:
  "\<forall>l\<in>set ls. \<exists>t. l = CHR ''+'' # t \<Longrightarrow>
     foldl (hunk_step orig) (c, out) ls = (c, out @ map tl ls)"
  by (induction ls arbitrary: out) auto

lemma open_extend:
  assumes "loop_inv ol ml i j hs hunk body" and "new \<noteq> []"
  shows "open_state ol (if hs = - 1 then int i else hs) (hunk @ new) body =
           foldl (hunk_step ol) (i, take j ml) new"
proof (cases "hunk = []")
  case True
  with assms have hs: "hs = - 1" and c: "fst (open_state ol hs [] body) \<le> i"
    and o: "snd (open_state ol hs [] body)
        @ take (i - fst (open_state ol hs [] body)) (drop (fst (open_state ol hs [] body)) ol)
        = take j ml"
    by (auto simp: loop_inv_def)
  then show ?thesis using assms(2) True
    by (simp add: open_state_def Let_def max_def)
next
  case False
  with assms have hs: "0 \<le> hs" and c: "fst (open_state ol hs hunk body) = i"
    and o: "snd (open_state ol hs hunk body)
        @ take (i - fst (open_state ol hs hunk body)) (drop (fst (open_state ol hs hunk body)) ol)
        = take j ml"
    by (auto simp: loop_inv_def)
  from c o have "open_state ol hs hunk body = (i, take j ml)"
    by (cases "open_state ol hs hunk body") simp
  moreover have "open_state ol hs (hunk @ new) body = foldl (hunk_step ol) (open_state ol hs hunk body) new"
    using False by (simp add: open_state_def Let_def)
  ultimately show ?thesis using hs by auto
qed

lemma inv_from_state:
  assumes "open_state ol hs hunk body = (c, out)" "c = i" "out = take j ml"
    "i \<le> length ol" "j \<le> length ml" "hunk \<noteq> []" "0 \<le> hs"
  shows "loop_inv ol ml i j hs hunk body"
  using assms by (simp add: loop_inv_def)

lemma mismatch_start: "loop_inv ol ml i j hs hunk body \<Longrightarrow> 0 \<le> (if hs = - 1 then int i else hs)"
  by (auto simp: loop_inv_def)

lemma inv_removed:
  assumes inv: "loop_inv ol ml i j hs hunk body" and la: "0 < la" "i + la \<le> length ol"
  shows "loop_inv ol ml (i + la) j (if hs = - 1 then int i else hs)
           (hunk @ map (\<lambda>k. minus_line ol (i + k)) [0..<la]) body"
proof -
  let ?new = "map (\<lambda>k. minus_line ol (i + k)) [0..<la]"
  have ne: "?new \<noteq> []" using la by simp
  have "foldl (hunk_step ol) (i, take j ml) ?new = (i + la, take j ml)"
    using fold_minus_lines [of ?new ol i "take j ml"] by (auto simp: minus_line_def)
  then have "open_state ol (if hs = - 1 then int i else hs) (hunk @ ?new) body = (i + la, take j ml)"
    using open_extend [OF inv ne] by simp
  then show ?thesis
    using inv la mismatch_start [OF inv]
    by (intro inv_from_state [where c = "i + la" and out = "take j ml"]) (auto simp: loop_inv_def)
qed

lemma plus_lines_tl:
  assumes "j + la \<le> length ml"
  shows "map tl (map (\<lambda>k. plus_line ml (j + k)) [0..<la]) = take la (drop j ml)"
proof -
  have "map tl (map (\<lambda>k. plus_line ml (j + k)) [0..<la]) = map (\<lambda>k. ml ! (j + k)) [0..<la]"
    using assms by (auto simp: plus_line_def nth_opt_def template_str_def)
  also have "\<dots> = take la (drop j ml)"
    using assms by (intro nth_equalityI) auto
  finally show ?thesis .
qed

lemma inv_added:
  assumes inv: "loop_inv ol ml i j hs hunk body" and la: "0 < la" "j + la \<le> length ml"
  shows "loop_inv ol ml i (j + la) (if hs = - 1 then int i else hs)
           (hunk @ map (\<lambda>k. plus_line ml (j + k)) [0..<la]) body"
proof -
  let ?new = "map (\<lambda>k. plus_line ml (j + k)) [0..<la]"
  have ne: "?new \<noteq> []" using la by simp
  have "foldl (hunk_step ol) (i, take j ml) ?new = (i, take j ml @ map tl ?new)"
    using fold_plus_lines [of ?new ol i "take j ml"] by (auto simp: plus_line_def)
  also have "take j ml @ map tl ?new = take (j + la) ml"
    using plus_lines_tl [OF la(2)] by (simp add: take_add)
  finally have "open_state ol (if hs = - 1 then int i else hs) (hunk @ ?new) body
                  = (i, take (j + la) ml)"
    using open_extend [OF inv ne] by simp
  then show ?thesis
    using inv la mismatch_start [OF inv]
    by (intro inv_from_state [where c = i and out = "take (j + la) ml"]) (auto simp: loop_inv_def)
qed

lemma inv_changed:
  assumes inv: "loop_inv ol ml i j hs hunk body" and more: "i < length ol \<or> j < length ml"
  shows "loop_inv ol ml (if i < length ol then i + 1 else i) (if j < length ml then j + 1 else j)
           (if hs = - 1 then int i else hs)
           (hunk @ (if i < length ol then [minus_line ol i] else [])
                 @ (if j < length ml then [plus_line ml j] else [])) body"
proof -
  let ?new = "(if i < length ol then [minus_line ol i] else [])
                 @ (if j < length ml then [plus_line ml j] else [])"
  have ne: "?new \<noteq> []" using more by auto
  have "foldl (hunk_step ol) (i, take j ml) ?new =
          (if i < length ol then i + 1 else i, take (if j < length ml then j + 1 else j) ml)"
    by (auto simp: minus_line_def plus_line_def nth_opt_def template_str_def take_Suc_conv_app_nth)
  then have "open_state ol (if hs = - 1 then int i else hs) (hunk @ ?new) body
       = (if i < length ol then i + 1 else i, take (if j < length ml then j + 1 else j) ml)"
    using open_extend [OF inv ne] by (simp del: append_assoc add: append_assoc [symmetric])
  then show ?thesis
    using inv more mismatch_start [OF inv] ne
    by (intro inv_from_state [where c = "if i < length ol then i + 1 else i"
          and out = "take (if j < length ml then j + 1 else j) ml"])
       (auto simp: loop_inv_def simp del: append_assoc)
qed

lemma inv_match_flush:
  assumes inv: "loop_inv ol ml i j hs hunk body" and ne: "hunk \<noteq> []"
    and eq: "nth_opt ol i = nth_opt ml j" and more: "i < length ol \<or> j < length ml"
  shows "loop_inv ol ml (i + 1) (j + 1) (- 1) [] (body @ [hunk_header hs hunk] @ hunk)"
proof -
  from eq more have r: "i < length ol" "j < length ml" "ol ! i = ml ! j"
    by (auto simp: nth_opt_def split: if_splits)
  from inv ne have hs: "0 \<le> hs" and c: "fst (open_state ol hs hunk body) = i"
    and o: "snd (open_state ol hs hunk body) = take j ml"
    by (auto simp: loop_inv_def)
  have "open_state ol (- 1) [] (body @ [hunk_header hs hunk] @ hunk) = open_state ol hs hunk body"
    using ne hunk_step_header(1) [OF hs, of ol "fst (foldl (hunk_step ol) (0, []) body)"
        "snd (foldl (hunk_step ol) (0, []) body)" hunk]
    by (simp add: open_state_def Let_def)
  then have s: "open_state ol (- 1) [] (body @ [hunk_header hs hunk] @ hunk) = (i, take j ml)"
    using c o by (cases "open_state ol hs hunk body") simp
  show ?thesis
    using r s by (simp add: loop_inv_def take_Suc_conv_app_nth)
qed

lemma inv_match_plain:
  assumes inv: "loop_inv ol ml i j hs [] body"
    and eq: "nth_opt ol i = nth_opt ml j" and more: "i < length ol \<or> j < length ml"
  shows "loop_inv ol ml (i + 1) (j + 1) hs [] body"
proof -
  from eq more have r: "i < length ol" "j < length ml" "ol ! i = ml ! j"
    by (auto simp: nth_opt_def split: if_splits)
  let ?c = "fst (open_state ol hs [] body)"
  from inv have c: "?c \<le> i"
    and o: "snd (open_state ol hs [] body) @ take (i - ?c) (drop ?c ol) = take j ml"
    and hs: "hs = - 1"
    by (auto simp: loop_inv_def)
  have "take (i + 1 - ?c) (drop ?c ol) = take (i - ?c) (drop ?c ol) @ [ol ! i]"
    using c r(1) by (simp add: Suc_diff_le take_Suc_conv_app_nth)
  then have "snd (open_state ol hs [] body) @ take (i + 1 - ?c) (drop ?c ol) = take (j + 1) ml"
    using o r by (simp add: take_Suc_conv_app_nth)
  then show ?thesis
    using c r hs by (simp add: loop_inv_def)
qed


lemma findLookAhead_las: "findLookAhead ol ml i j [1, 2, 3] = Some r \<Longrightarrow>
   (\<exists>la. 0 < la \<and> ((r = LinesRemoved la \<and> nth_opt ol (i + la) = nth_opt ml j) \<or>
                    (r = LinesAdded la \<and> nth_opt ol i = nth_opt ml (j + la))) \<and>
         (\<forall>k. 0 < k \<and> k < la \<longrightarrow> nth_opt ol (i + k) \<noteq> nth_opt ml j \<and> nth_opt ol i \<noteq> nth_opt ml (j + k)))"
  by (auto split: if_splits simp: less_Suc_eq numeral_2_eq_2 numeral_3_eq_3)

text \<open>The look-ahead never reaches beyond the end of the lines it reports.\<close>

lemma removed_in_range:
  assumes "findLookAhead ol ml i j [1, 2, 3] = Some (LinesRemoved la)"
    and "nth_opt ol i \<noteq> nth_opt ml j" and "i < length ol \<or> j < length ml"
  shows "0 < la \<and> i + la \<le> length ol"
proof -
  from findLookAhead_las [OF assms(1)]
  have la: "0 < la" "nth_opt ol (i + la) = nth_opt ml j"
    and min: "\<forall>k. 0 < k \<and> k < la \<longrightarrow> nth_opt ol (i + k) \<noteq> nth_opt ml j"
    by auto
  show ?thesis
  proof (cases "j < length ml")
    case True
    with la show ?thesis by (auto simp: nth_opt_def split: if_splits)
  next
    case False
    then have i: "i < length ol" using assms(3) by simp
    have "i + la \<le> length ol"
    proof (rule ccontr)
      assume "\<not> i + la \<le> length ol"
      then have "0 < la - 1 \<and> la - 1 < la \<and> length ol \<le> i + (la - 1)" using i by auto
      then have "nth_opt ol (i + (la - 1)) = nth_opt ml j" "0 < la - 1 \<and> la - 1 < la"
        using False by (auto simp: nth_opt_def)
      with min show False by blast
    qed
    with la show ?thesis by simp
  qed
qed

lemma added_in_range:
  assumes "findLookAhead ol ml i j [1, 2, 3] = Some (LinesAdded la)"
    and "nth_opt ol i \<noteq> nth_opt ml j" and "i < length ol \<or> j < length ml"
  shows "0 < la \<and> j + la \<le> length ml"
proof -
  from findLookAhead_las [OF assms(1)]
  have la: "0 < la" "nth_opt ol i = nth_opt ml (j + la)"
    and min: "\<forall>k. 0 < k \<and> k < la \<longrightarrow> nth_opt ol i \<noteq> nth_opt ml (j + k)"
    by auto
  show ?thesis
  proof (cases "i < length ol")
    case True
    with la show ?thesis by (auto simp: nth_opt_def split: if_splits)
  next
    case False
    then have j: "j < length ml" using assms(3) by simp
    have "j + la \<le> length ml"
    proof (rule ccontr)
      assume "\<not> j + la \<le> length ml"
      then have "0 < la - 1 \<and> la - 1 < la \<and> length ml \<le> j + (la - 1)" using j by auto
      then have "nth_opt ol i = nth_opt ml (j + (la - 1))" "0 < la - 1 \<and> la - 1 < la"
        using False by (auto simp: nth_opt_def)
      with min show False by blast
    qed
    with la show ?thesis by simp
  qed
qed

text \<open>At the exit of the loop the lines pushed, with the open hunk, rebuild the modified lines.\<close>

lemma diff_loop_rebuilds:
  assumes "loop_inv ol ml i j hs hunk (drop 2 diff)" and "2 \<le> length diff"
    and "diff_loop ol ml i j hs hunk diff = (hs', hunk', diff')"
  shows "take 2 diff' = take 2 diff \<and> 2 \<le> length diff' \<and> (hunk' \<noteq> [] \<longrightarrow> 0 \<le> hs') \<and>
           snd (open_state ol hs' hunk' (drop 2 diff'))
             @ drop (fst (open_state ol hs' hunk' (drop 2 diff'))) ol = ml"
  using assms
proof (induction ol ml i j hs hunk diff rule: diff_loop.induct)
  case (1 ol ml i j hs hunk diff)
  note inv = "1.prems"(1) and len = "1.prems"(2) and res = "1.prems"(3)
  show ?case
  proof (cases "i < length ol \<or> j < length ml")
    case False
    with res have e: "hs' = hs" "hunk' = hunk" "diff' = diff"
      by (simp_all add: diff_loop.simps [of ol ml i j])
    from False inv have "i = length ol" "j = length ml" by (auto simp: loop_inv_def)
    with inv have "snd (open_state ol hs hunk (drop 2 diff))
                     @ drop (fst (open_state ol hs hunk (drop 2 diff))) ol = ml"
      "hunk \<noteq> [] \<longrightarrow> 0 \<le> hs"
      by (auto simp: loop_inv_def)
    with e len show ?thesis by simp
  next
    case more: True
    show ?thesis
    proof (cases "nth_opt ol i = nth_opt ml j")
      case eq: True
      show ?thesis
      proof (cases "hunk = []")
        case True
        from inv True have inv': "loop_inv ol ml (i + 1) (j + 1) hs hunk (drop 2 diff)"
          using inv_match_plain [OF _ eq more] by simp
        from res more eq True
        have res': "diff_loop ol ml (i + 1) (j + 1) hs hunk diff = (hs', hunk', diff')"
          by (simp add: diff_loop.simps [of ol ml i j])
        have nn: "\<not> hunk \<noteq> []" using True by simp
        from "1.IH"(2) [OF more eq nn inv' len res'] show ?thesis .
      next
        case False
        let ?diff = "diff @ [hunk_header hs hunk] @ hunk"
        have inv': "loop_inv ol ml (i + 1) (j + 1) (- 1) [] (drop 2 ?diff)"
          using inv_match_flush [OF inv False eq more] len by simp
        have len': "2 \<le> length ?diff" using len by simp
        from res more eq False
        have res': "diff_loop ol ml (i + 1) (j + 1) (- 1) [] ?diff = (hs', hunk', diff')"
          by (simp add: diff_loop.simps [of ol ml i j])
        from "1.IH"(1) [OF more eq False inv' len' res'] len show ?thesis by simp
      qed
    next
      case neq: False
      show ?thesis
      proof (cases "findLookAhead ol ml i j [1, 2, 3]")
        case None
        let ?i' = "if i < length ol then i + 1 else i"
        let ?j' = "if j < length ml then j + 1 else j"
        let ?hs = "if hs = - 1 then int i else hs"
        let ?hunk = "hunk @ (if i < length ol then [minus_line ol i] else [])
                        @ (if j < length ml then [plus_line ml j] else [])"
        have inv': "loop_inv ol ml ?i' ?j' ?hs ?hunk (drop 2 diff)"
          using inv_changed [OF inv more] .
        from res more neq None
        have res': "diff_loop ol ml ?i' ?j' ?hs ?hunk diff = (hs', hunk', diff')"
          by (simp add: diff_loop.simps [of ol ml i j])
        from "1.IH"(3) [OF more neq None inv' len res'] show ?thesis .
      next
        case (Some r)
        show ?thesis
        proof (cases r)
          case (LinesRemoved la)
          let ?hs = "if hs = - 1 then int i else hs"
          let ?hunk = "hunk @ map (\<lambda>k. minus_line ol (i + k)) [0..<la]"
          have fl: "findLookAhead ol ml i j [1, 2, 3] = Some (LinesRemoved la)"
            using Some LinesRemoved by simp
          have inv': "loop_inv ol ml (i + la) j ?hs ?hunk (drop 2 diff)"
            using inv_removed [OF inv] removed_in_range [OF fl neq more] by simp
          from res more neq fl
          have res': "diff_loop ol ml (i + la) j ?hs ?hunk diff = (hs', hunk', diff')"
            by (simp add: diff_loop.simps [of ol ml i j])
          from "1.IH"(4) [OF more neq Some LinesRemoved inv' len res'] show ?thesis .
        next
          case (LinesAdded la)
          let ?hs = "if hs = - 1 then int i else hs"
          let ?hunk = "hunk @ map (\<lambda>k. plus_line ml (j + k)) [0..<la]"
          have fl: "findLookAhead ol ml i j [1, 2, 3] = Some (LinesAdded la)"
            using Some LinesAdded by simp
          have inv': "loop_inv ol ml i (j + la) ?hs ?hunk (drop 2 diff)"
            using inv_added [OF inv] added_in_range [OF fl neq more] by simp
          from res more neq fl
          have res': "diff_loop ol ml i (j + la) ?hs ?hunk diff = (hs', hunk', diff')"
            by (simp add: diff_loop.simps [of ol ml i j])
          from "1.IH"(5) [OF more neq Some LinesAdded inv' len res'] show ?thesis .
        qed
      qed
    qed
  qed
qed

lemma split_on_lines_free: "\<forall>l\<in>set (split_on c s). c \<notin> set l"
  by (induction s) (auto split: list.splits)

lemma join_split_on: "join_with [c] (split_on c s) = s"
proof (induction s)
  case Nil
  show ?case by simp
next
  case (Cons x xs)
  obtain l ls where sp: "split_on c xs = l # ls"
    using split_on_nonempty [of c xs] by (cases "split_on c xs") auto
  show ?case
  proof (cases "x = c")
    case True
    with Cons sp show ?thesis by simp
  next
    case False
    with Cons sp show ?thesis by (cases ls) auto
  qed
qed

lemma split_on_join:
  assumes "ls \<noteq> []" and "\<forall>l\<in>set ls. c \<notin> set l"
  shows "split_on c (join_with [c] ls) = ls"
  using assms
proof (induction "[c]" ls rule: join_with.induct)
  case 1
  then show ?case by simp
next
  case (2 x)
  then show ?case by (simp add: split_on_no_sep)
next
  case (3 x y ys)
  then have "split_on c (join_with [c] (y # ys)) = y # ys" by simp
  moreover have "split_on c (x @ c # rest) = x # split_on c rest" for rest
    using 3(3) by (induction x) (auto split: list.splits simp: split_on_nonempty)
  ultimately show ?case by simp
qed

lemma diff_loop_lines:
  assumes "\<forall>l\<in>set diff \<union> set hunk. Q l" and "\<forall>k. Q (minus_line ol k)" and "\<forall>k. Q (plus_line ml k)"
    and "\<forall>s h. Q (hunk_header s h)"
    and "diff_loop ol ml i j hs hunk diff = (hs', hunk', diff')"
  shows "\<forall>l\<in>set diff' \<union> set hunk'. Q l"
  using assms
proof (induction ol ml i j hs hunk diff rule: diff_loop.induct)
  case (1 ol ml i j hs hunk diff)
  note q = "1.prems"(1) and res = "1.prems"(5)
  note rest = "1.prems"(2,3,4)
  show ?case
  proof (cases "i < length ol \<or> j < length ml")
    case False
    with res q show ?thesis by (simp add: diff_loop.simps [of ol ml i j])
  next
    case more: True
    show ?thesis
    proof (cases "nth_opt ol i = nth_opt ml j")
      case eq: True
      show ?thesis
      proof (cases "hunk = []")
        case True
        have nn: "\<not> hunk \<noteq> []" using True by simp
        from res more eq True
        have res': "diff_loop ol ml (i + 1) (j + 1) hs hunk diff = (hs', hunk', diff')"
          by (simp add: diff_loop.simps [of ol ml i j])
        from "1.IH"(2) [OF more eq nn q rest res'] show ?thesis .
      next
        case False
        let ?diff = "diff @ [hunk_header hs hunk] @ hunk"
        have q': "\<forall>l\<in>set ?diff \<union> set []. Q l" using q rest by auto
        from res more eq False
        have res': "diff_loop ol ml (i + 1) (j + 1) (- 1) [] ?diff = (hs', hunk', diff')"
          by (simp add: diff_loop.simps [of ol ml i j])
        from "1.IH"(1) [OF more eq False q' rest res'] show ?thesis .
      qed
    next
      case neq: False
      show ?thesis
      proof (cases "findLookAhead ol ml i j [1, 2, 3]")
        case None
        let ?i' = "if i < length ol then i + 1 else i"
        let ?j' = "if j < length ml then j + 1 else j"
        let ?hs = "if hs = - 1 then int i else hs"
        let ?hunk = "hunk @ (if i < length ol then [minus_line ol i] else [])
                        @ (if j < length ml then [plus_line ml j] else [])"
        have q': "\<forall>l\<in>set diff \<union> set ?hunk. Q l" using q rest by auto
        from res more neq None
        have res': "diff_loop ol ml ?i' ?j' ?hs ?hunk diff = (hs', hunk', diff')"
          by (simp add: diff_loop.simps [of ol ml i j])
        from "1.IH"(3) [OF more neq None q' rest res'] show ?thesis .
      next
        case (Some r)
        show ?thesis
        proof (cases r)
          case (LinesRemoved la)
          let ?hs = "if hs = - 1 then int i else hs"
          let ?hunk = "hunk @ map (\<lambda>k. minus_line ol (i + k)) [0..<la]"
          have q': "\<forall>l\<in>set diff \<union> set ?hunk. Q l" using q rest by auto
          from res more neq Some LinesRemoved
          have res': "diff_loop ol ml (i + la) j ?hs ?hunk diff = (hs', hunk', diff')"
            by (simp add: diff_loop.simps [of ol ml i j])
          from "1.IH"(4) [OF more neq Some LinesRemoved q' rest res'] show ?thesis .
        next
          case (LinesAdded la)
          let ?hs = "if hs = - 1 then int i else hs"
          let ?hunk = "hunk @ map (\<lambda>k. plus_line ml (j + k)) [0..<la]"
          have q': "\<forall>l\<in>set diff \<union> set ?hunk. Q l" using q rest by auto
          from res more neq Some LinesAdded
          have res': "diff_loop ol ml i (j + la) ?hs ?hunk diff = (hs', hunk', diff')"
            by (simp add: diff_loop.simps [of ol ml i j])
          from "1.IH"(5) [OF more neq Some LinesAdded q' rest res'] show ?thesis .
        qed
      qed
    qed
  qed
qed

lemma digit_not_newline: "is_digit c \<Longrightarrow> c \<noteq> newline"
  by (auto simp: is_digit_def newline_def)

lemma show_nat_no_newline: "newline \<notin> set (show_nat n)"
  using show_nat_digits [of n] digit_not_newline by blast

lemma show_int_no_newline: "newline \<notin> set (show_int k)"
proof (cases "k < 0")
  case True
  then show ?thesis using show_nat_no_newline [of "nat (- k)"] by (simp add: show_int_def newline_def)
next
  case False
  then show ?thesis using show_nat_no_newline [of "nat k"] by (simp add: show_int_def)
qed

lemma literal_no_newline:
  "newline \<notin> set ''@@ -''" "newline \<notin> set '',''" "newline \<notin> set '' +''" "newline \<notin> set '' @@''"
  "newline \<notin> set ''undefined''"
  by (simp_all add: newline_def)

lemma headers_no_newline:
  "newline \<notin> set (hunk_header s h)" "newline \<notin> set (last_hunk_header s)"
  using show_nat_no_newline show_int_no_newline literal_no_newline
  unfolding hunk_header_def last_hunk_header_def set_append by blast+

lemma hunk_lines_no_newline:
  "newline \<notin> set (minus_line (split_lines s) k)" "newline \<notin> set (plus_line (split_lines s) k)"
proof -
  have t: "newline \<notin> set (template_str (nth_opt (split_lines s) k))"
  proof (cases "k < length (split_lines s)")
    case True
    then have "split_lines s ! k \<in> set (split_on newline s)" by (simp add: split_lines_def)
    then have "newline \<notin> set (split_lines s ! k)" using split_on_lines_free by blast
    then show ?thesis using True by (simp add: template_str_def nth_opt_def)
  next
    case False
    then show ?thesis using literal_no_newline(5) by (simp add: template_str_def nth_opt_def)
  qed
  have c: "newline \<noteq> CHR ''-''" "newline \<noteq> CHR ''+''" by (simp_all add: newline_def)
  show "newline \<notin> set (minus_line (split_lines s) k)" using t c by (simp add: minus_line_def)
  show "newline \<notin> set (plus_line (split_lines s) k)" using t c by (simp add: plus_line_def)
qed

text \<open>The diff that \<open>applyFix\<close> returns rebuilds the modified text from the original,
  for every pair of texts (the file name must not contain a line feed, which would break
  the two header lines).\<close>

lemma unified_diff_round_trip:
  assumes "newline \<notin> set filename"
  shows "applyUnifiedDiff original (generateUnifiedDiff original modified filename) = modified"
proof -
  let ?ol = "split_lines original" and ?ml = "split_lines modified"
  let ?diff0 = "[''--- a/'' @ filename, ''+++ b/'' @ filename]"
  obtain hs hunk diff where loop: "diff_loop ?ol ?ml 0 0 (- 1) [] ?diff0 = (hs, hunk, diff)"
    by (cases "diff_loop ?ol ?ml 0 0 (- 1) [] ?diff0") auto
  let ?lines = "if hunk \<noteq> [] then diff @ [last_hunk_header hs] @ hunk else diff"
  have gen: "generateUnifiedDiff original modified filename = join_lines ?lines"
    unfolding generateUnifiedDiff_def Let_def loop by simp
  have inv0: "loop_inv ?ol ?ml 0 0 (- 1) [] (drop 2 ?diff0)"
    by (simp add: loop_inv_def open_state_def)
  from diff_loop_rebuilds [OF inv0 _ loop]
  have len: "2 \<le> length diff" and hs: "hunk \<noteq> [] \<longrightarrow> 0 \<le> hs"
    and rb: "snd (open_state ?ol hs hunk (drop 2 diff))
               @ drop (fst (open_state ?ol hs hunk (drop 2 diff))) ?ol = ?ml"
    by simp_all
  have q0: "\<forall>l\<in>set ?diff0 \<union> set []. newline \<notin> set l"
    using assms by (auto simp: newline_def)
  from diff_loop_lines [where Q = "\<lambda>l. newline \<notin> set l", OF q0 _ _ _ loop]
  have free: "\<forall>l\<in>set diff \<union> set hunk. newline \<notin> set l"
    using hunk_lines_no_newline headers_no_newline by blast
  have "\<forall>l\<in>set ?lines. newline \<notin> set l"
    using free headers_no_newline by auto
  moreover have "?lines \<noteq> []" using len by auto
  ultimately have sp: "split_lines (join_lines ?lines) = ?lines"
    unfolding split_lines_def join_lines_def by (rule split_on_join [rotated])
  have fold: "foldl (hunk_step ?ol) (0, []) (drop 2 ?lines) = open_state ?ol hs hunk (drop 2 diff)"
  proof (cases "hunk = []")
    case True
    then show ?thesis by (simp add: open_state_def)
  next
    case False
    then have "0 \<le> hs" using hs by simp
    from hunk_step_header(2) [OF this, of ?ol "fst (foldl (hunk_step ?ol) (0, []) (drop 2 diff))"
        "snd (foldl (hunk_step ?ol) (0, []) (drop 2 diff))"]
    show ?thesis using False len by (simp add: open_state_def Let_def)
  qed
  have a: "applyUnifiedDiff original (join_lines ?lines) = join_lines ?ml"
    using rb by (auto simp add: applyUnifiedDiff_def Let_def sp fold split: prod.splits)
  have b: "join_lines ?ml = modified"
    by (simp add: join_lines_def split_lines_def join_split_on)
  show ?thesis by (simp only: gen a b)
qed

section \<open>The line diff of \<open>generateDiff\<close> loses empty lines\<close>

lemmas diff_eval = generateDiff_def diff_at_def truthy_def template_str_def nth_opt_def
  split_lines_def join_lines_def newline_def applyLineDiff_def Let_def upt_rec

text \<open>
  Claim C2 says that the diff of every pair of texts rebuilds the modified text. For
  \<open>generateDiff\<close>, which produces the \<open>diff\<close> field of every suggested fix, this fails:
  when a line is replaced by an empty line (the original is \<open>a, b, c\<close>, the modified text
  \<open>a\<close>, empty, \<open>c\<close>) the diff has only the removal, and applying it gives \<open>a, c\<close>. No
  way of applying can do better: the diffs of \<open>a, b\<close> against \<open>a\<close> and against \<open>a\<close>
  followed by an empty line are the same text.
\<close>

theorem generateDiff_loses_empty_line:
  "generateDiff ''a\<newline>b\<newline>c'' ''a\<newline>\<newline>c'' = ''  a\<newline>- b\<newline>  c'' \<and>
   applyLineDiff ''a\<newline>b\<newline>c'' (generateDiff ''a\<newline>b\<newline>c'' ''a\<newline>\<newline>c'') = ''a\<newline>c'' \<and>
   generateDiff ''a\<newline>b'' ''a'' = generateDiff ''a\<newline>b'' ''a\<newline>''"
  by (simp add: diff_eval)

section \<open>A subscription in \<open>useEffect\<close> without cleanup\<close>


subsection \<open>Occurrences of a text in a text\<close>













subsection \<open>The search loop of a regular expression\<close>






lemma scan_matches_skip_one:
  "scan_matches m 1 idx (c # cs) = scan_matches m 0 (idx + 1) cs"
  by simp






subsection \<open>Detection\<close>

text \<open>The lines of the file: the lines \<open>before\<close> the effect, the effect indented by \<open>k\<close>
  spaces on a line of its own, the lines \<open>after\<close> it.\<close>

lemma newline_not_in_literals:
  "newline \<notin> set ''useEffect''" "newline \<notin> set ''addEventListener''"
  "newline \<notin> set ''setInterval''" "newline \<notin> set ''unsubscribe''" "newline \<notin> set ''subscribe''"
  by (simp_all add: newline_def)





subsection \<open>The fix\<close>





subsection \<open>The scenario\<close>













section \<open>Two runs of the detection rules\<close>

text \<open>An issue without what the run stamps on it: its id and its time of detection.\<close>

definition erase :: "'a DetectedIssue_scheme \<Rightarrow> 'a DetectedIssue_scheme" where
  "erase issue = issue\<lparr>i_id := [], i_detectedAt := []\<rparr>"

definition stamp_free :: "(string \<Rightarrow> string \<Rightarrow> 'a DetectedIssue_scheme) \<Rightarrow> bool" where
  "stamp_free mk = (\<forall>a b c d. erase (mk a b) = erase (mk c d))"

lemma number_issues_erase_from:
  assumes "\<forall>mk\<in>set ms. stamp_free mk"
  shows "map (\<lambda>(k, mk). erase (mk (u1 k) (c1 k))) (enumerate n ms) =
         map (\<lambda>(k, mk). erase (mk (u2 k) (c2 k))) (enumerate n ms)"
  using assms by (induction ms arbitrary: n) (auto simp: stamp_free_def)

lemma number_issues_erase:
  assumes "\<forall>mk\<in>set ms. stamp_free mk"
  shows "map erase (number_issues u1 c1 ms) = map erase (number_issues u2 c2 ms)"
  using number_issues_erase_from [OF assms, of u1 c1 0 u2 c2]
  by (simp add: number_issues_def comp_def case_prod_unfold)

lemma react_makers_stamp_free:
  "\<forall>mk\<in>set (concat (map (effect_issue fp content) ms) @ listener_issue fp content ls
              @ interval_issue fp content ls). stamp_free mk"
  by (auto simp: effect_issue_def listener_issue_def interval_issue_def stamp_free_def erase_def
      Let_def split: if_splits)

lemma null_makers_stamp_free:
  "\<forall>mk\<in>set (concat (map (force_unwrap_issue fp content ls) ms)). stamp_free mk"
  "\<forall>mk\<in>set (concat (map (unsafe_access_issue fp content) ms')). stamp_free mk"
  "\<forall>mk\<in>set (concat (map (swift_unwrap_issue fp content ls) ms)). stamp_free mk"
  "\<forall>mk\<in>set (concat (map (kotlin_assert_issue fp content ls) ms)). stamp_free mk"
  by (auto simp: force_unwrap_issue_def unsafe_access_issue_def swift_unwrap_issue_def
      kotlin_assert_issue_def stamp_free_def erase_def Let_def split: if_splits)

lemma erase_projections:
  assumes "map erase xs = map erase ys"
  shows "length xs = length ys" and "map i_type xs = map i_type ys" and "map i_line xs = map i_line ys"
proof -
  show "length xs = length ys" using assms by (metis length_map)
  have "map i_type xs = map (i_type \<circ> erase) xs" "map i_type ys = map (i_type \<circ> erase) ys"
       "map i_line xs = map (i_line \<circ> erase) xs" "map i_line ys = map (i_line \<circ> erase) ys"
    by (simp_all add: erase_def comp_def)
  then show "map i_type xs = map i_type ys" "map i_line xs = map i_line ys"
    using assms by (metis map_map)+
qed

text \<open>
  Claim C8. Two runs of the detection rules on the same content differ in nothing but the
  ids and the times of detection of the issues: the two lists have the same length, the
  same kinds and the same line numbers in the same order, and they are equal once the id
  and the time of every issue are blanked. The two runs draw their ids from \<open>uuid1\<close> and
  \<open>uuid2\<close> and read the clocks \<open>clk1\<close> and \<open>clk2\<close>, which are arbitrary. This holds for
  the React memory-leak rules and for the null-reference rules of every platform.
\<close>

theorem detection_rules_deterministic:
  "(let run1 = analyzeReactMemoryLeaks uuid1 clk1 filePath content lines;
        run2 = analyzeReactMemoryLeaks uuid2 clk2 filePath content lines
    in length run1 = length run2 \<and> map i_type run1 = map i_type run2
     \<and> map i_line run1 = map i_line run2 \<and> map erase run1 = map erase run2)
   \<and>
   (let run1 = detectNullReferences uuid1 clk1 filePath content platform;
        run2 = detectNullReferences uuid2 clk2 filePath content platform
    in length run1 = length run2 \<and> map i_type run1 = map i_type run2
     \<and> map i_line run1 = map i_line run2 \<and> map erase run1 = map erase run2)"
proof -
  have react: "map erase (analyzeReactMemoryLeaks uuid1 clk1 filePath content lines)
     = map erase (analyzeReactMemoryLeaks uuid2 clk2 filePath content lines)"
    unfolding analyzeReactMemoryLeaks_def
    by (rule number_issues_erase [OF react_makers_stamp_free])
  have null: "map erase (detectNullReferences uuid1 clk1 filePath content platform)
     = map erase (detectNullReferences uuid2 clk2 filePath content platform)"
    unfolding detectNullReferences_def Let_def
    by (rule number_issues_erase) (use null_makers_stamp_free in auto)
  show ?thesis
    unfolding Let_def
    using erase_projections [OF react] erase_projections [OF null] react null by blast
qed

end
